theory Spec2Isabelle
  imports Complex_Main "HOL-Library.Word"
begin

section \<open>Strings and regular expressions, as far as the sources use them\<close>

text \<open>
  Strings are lists of characters. The sources use three regular expressions:
  \<^verbatim>\<open>/\(#\d{4,6}\)/\<close> in \<^verbatim>\<open>filterRoomsWithIdOnly\<close>, and
  \<^verbatim>\<open>/<color=#[A-Fa-f0-9]{6}>/g\<close> and \<^verbatim>\<open>/^\[[^\]]+\]/g\<close> in
  \<^verbatim>\<open>cleanUsername\<close>. A pattern is a sequence of literal characters, character
  classes and repetitions of them. The class \<^verbatim>\<open>\d\<close> of a pattern without the
  unicode flag is the ten ASCII digits.
\<close>

datatype rx =
    Lit char
  | Class "char list"
  | NotClass "char list"
  | Seq rx rx
  | Rep nat nat rx
  | Plus rx

definition digits :: "char list" where
  "digits = ''0123456789''"

definition isDigit :: "char \<Rightarrow> bool" where
  "isDigit c \<longleftrightarrow> c \<in> set digits"

text \<open>
  \<open>rxrep m lo hi s\<close>: between \<open>lo\<close> and \<open>hi\<close> repetitions of the matcher \<open>m\<close>
  from the start of \<open>s\<close>, the longer alternatives first (the quantifiers are greedy);
  the result lists the remainders of \<open>s\<close> after every way to match, in the order in
  which a backtracking matcher tries them.
\<close>

fun rxrep :: "(string \<Rightarrow> string list) \<Rightarrow> nat \<Rightarrow> nat \<Rightarrow> string \<Rightarrow> string list" where
  "rxrep m lo 0 s = (if lo = 0 then [s] else [])"
| "rxrep m lo (Suc hi) s =
     concat (map (rxrep m (lo - 1) hi) (m s)) @ (if lo = 0 then [s] else [])"

text \<open>One or more repetitions of a pattern that consumes a character each time are at
  most as many as the string has characters.\<close>

primrec rxmatch :: "rx \<Rightarrow> string \<Rightarrow> string list" where
  "rxmatch (Lit c) s = (case s of [] \<Rightarrow> [] | x # xs \<Rightarrow> if x = c then [xs] else [])"
| "rxmatch (Class cs) s = (case s of [] \<Rightarrow> [] | x # xs \<Rightarrow> if x \<in> set cs then [xs] else [])"
| "rxmatch (NotClass cs) s = (case s of [] \<Rightarrow> [] | x # xs \<Rightarrow> if x \<notin> set cs then [xs] else [])"
| "rxmatch (Seq a b) s = concat (map (rxmatch b) (rxmatch a s))"
| "rxmatch (Rep lo hi r) s = rxrep (rxmatch r) lo hi s"
| "rxmatch (Plus r) s = rxrep (rxmatch r) 1 (length s) s"

text \<open>\<^verbatim>\<open>re.test(s)\<close> of a pattern without anchors: a match starting at some position.\<close>

fun rxtest :: "rx \<Rightarrow> string \<Rightarrow> bool" where
  "rxtest r [] = (rxmatch r [] \<noteq> [])"
| "rxtest r (c # cs) = (rxmatch r (c # cs) \<noteq> [] \<or> rxtest r cs)"

definition lits :: "string \<Rightarrow> rx \<Rightarrow> rx" where
  "lits s r = foldr (\<lambda>c r. Seq (Lit c) r) s r"

definition roomIdPattern :: rx where
  "roomIdPattern =
     Seq (Lit CHR ''('') (Seq (Lit CHR ''#'') (Seq (Rep 4 6 (Class digits)) (Lit CHR '')'')))"

definition filterRoomsWithIdOnly :: "string list \<Rightarrow> string list" where
  "filterRoomsWithIdOnly roomKeys = filter (\<lambda>key. rxtest roomIdPattern key) roomKeys"

text \<open>The naming pattern in the words of the specification: somewhere in the key an
  opening parenthesis, a hash sign, four to six digits and a closing parenthesis.\<close>

definition hasRoomId :: "string \<Rightarrow> bool" where
  "hasRoomId key \<longleftrightarrow>
     (\<exists>pre ds post. key = pre @ ''(#'' @ ds @ '')'' @ post \<and>
        4 \<le> length ds \<and> length ds \<le> 6 \<and> (\<forall>d \<in> set ds. isDigit d))"

text \<open>
  \<^verbatim>\<open>s.replaceAll(re, "")\<close> for a global pattern: from left to right, the first way
  to match at a position is cut out and the search goes on behind it. (The two
  patterns of the sources match at least one character.)
\<close>

function rxremoveAll :: "rx \<Rightarrow> string \<Rightarrow> string" where
  "rxremoveAll r s =
     (case rxmatch r s of
        rest # _ \<Rightarrow>
          if length rest < length s then rxremoveAll r rest
          else (case s of [] \<Rightarrow> [] | c # cs \<Rightarrow> c # rxremoveAll r cs)
      | [] \<Rightarrow> (case s of [] \<Rightarrow> [] | c # cs \<Rightarrow> c # rxremoveAll r cs))"
  by pat_completeness auto
termination
  by (relation "measure (\<lambda>(r, s). length s)") auto

text \<open>The same for a pattern anchored with \<^verbatim>\<open>^\<close>: it can only match at the start.\<close>

definition rxremoveStart :: "rx \<Rightarrow> string \<Rightarrow> string" where
  "rxremoveStart r s = (case rxmatch r s of rest # _ \<Rightarrow> rest | [] \<Rightarrow> s)"

definition startsWith :: "string \<Rightarrow> string \<Rightarrow> bool" where
  "startsWith s p \<longleftrightarrow> take (length p) s = p"

text \<open>\<^verbatim>\<open>s.replaceAll(t, "")\<close> and \<^verbatim>\<open>s.split(t)\<close> for a literal text \<open>t\<close> that is
  not empty.\<close>

function removeAll_str :: "string \<Rightarrow> string \<Rightarrow> string" where
  "removeAll_str t s =
     (case s of
        [] \<Rightarrow> []
      | c # cs \<Rightarrow>
          if t \<noteq> [] \<and> startsWith s t then removeAll_str t (drop (length t) s)
          else c # removeAll_str t cs)"
  by pat_completeness auto
termination
  by (relation "measure (\<lambda>(t, s). length s)") auto

function splitAcc :: "string \<Rightarrow> string \<Rightarrow> string \<Rightarrow> string list" where
  "splitAcc t acc s =
     (case s of
        [] \<Rightarrow> [rev acc]
      | c # cs \<Rightarrow>
          if t \<noteq> [] \<and> startsWith s t then rev acc # splitAcc t [] (drop (length t) s)
          else splitAcc t (c # acc) cs)"
  by pat_completeness auto
termination
  by (relation "measure (\<lambda>(t, acc, s). length s)") auto

definition splitOn :: "string \<Rightarrow> string \<Rightarrow> string list" where
  "splitOn s t = splitAcc t [] s"

text \<open>\<^verbatim>\<open>trim\<close> removes white space at both ends; of the characters of the model, the
  ASCII ones: tab, line feed, vertical tab, form feed, carriage return and space.\<close>

definition isSpace :: "char \<Rightarrow> bool" where
  "isSpace c \<longleftrightarrow> c \<in> set [CHR 0x09, CHR 0x0A, CHR 0x0B, CHR 0x0C, CHR 0x0D, CHR '' '']"

definition trim :: "string \<Rightarrow> string" where
  "trim s = rev (dropWhile isSpace (rev (dropWhile isSpace s)))"

definition hexDigits :: "char list" where
  "hexDigits = ''ABCDEFabcdef0123456789''"

definition colorTagPattern :: rx where
  "colorTagPattern = lits ''<color=#'' (Seq (Rep 6 6 (Class hexDigits)) (Lit CHR ''>''))"

definition clanPrefixPattern :: rx where
  "clanPrefixPattern = Seq (Lit CHR ''['') (Seq (Plus (NotClass '']'')) (Lit CHR '']''))"

section \<open>JavaScript values and the values of the packet builder\<close>

text \<open>
  A JavaScript number is an integer, a number that is not an integer, NaN or an
  infinity. The sources test a number for being an integer, add one to it, and print
  and parse integers; a number that is not an integer is only passed on, and is
  carried by its decimal text (what \<^verbatim>\<open>String(n)\<close> gives for it).
\<close>

datatype jsnum = Integer int | Dec string | NaN | PosInf | NegInf

definition isInteger :: "jsnum \<Rightarrow> bool" where
  "isInteger n = (case n of Integer i \<Rightarrow> True | _ \<Rightarrow> False)"

text \<open>\<^verbatim>\<open>a == b\<close> and \<^verbatim>\<open>a === b\<close> on numbers: NaN equals nothing.\<close>

definition numEq :: "jsnum \<Rightarrow> jsnum \<Rightarrow> bool" where
  "numEq a b \<longleftrightarrow> a = b \<and> a \<noteq> NaN"

text \<open>
  The values a handler inspects or a caller passes: a decoded parameter, an event's
  custom content. \<open>JOther\<close> stands for a function, symbol or bigint, with the text
  that \<^verbatim>\<open>String(value)\<close> gives for it. An object lists its own enumerable
  properties in the order of enumeration.
\<close>

datatype jsval =
    JUndefined
  | JNull
  | JBool bool
  | JNum jsnum
  | JStr string
  | JArr "jsval list"
  | JObj "(string \<times> jsval) list"
  | JOther string

datatype jserror = TypeError string | SyntaxError string | Error string

fun truthy :: "jsval \<Rightarrow> bool" where
  "truthy JUndefined = False"
| "truthy JNull = False"
| "truthy (JBool b) = b"
| "truthy (JNum n) = (n \<noteq> Integer 0 \<and> n \<noteq> NaN)"
| "truthy (JStr s) = (s \<noteq> [])"
| "truthy _ = True"

definition nullish :: "jsval \<Rightarrow> bool" where
  "nullish v \<longleftrightarrow> v = JUndefined \<or> v = JNull"

text \<open>\<^verbatim>\<open>a ?? b\<close>\<close>

definition orElse :: "jsval \<Rightarrow> jsval \<Rightarrow> jsval" where
  "orElse a b = (if nullish a then b else a)"

text \<open>Decimal digits of a natural number, and \<^verbatim>\<open>String(n)\<close>.\<close>

function digitsOf :: "nat \<Rightarrow> string" where
  "digitsOf n = (if n < 10 then [digits ! n] else digitsOf (n div 10) @ [digits ! (n mod 10)])"
  by pat_completeness auto
termination
  by (relation "measure id") auto

definition numToString :: "jsnum \<Rightarrow> string" where
  "numToString n =
     (case n of
        Integer i \<Rightarrow> (if i < 0 then ''-'' @ digitsOf (nat (- i)) else digitsOf (nat i))
      | Dec t \<Rightarrow> t
      | NaN \<Rightarrow> ''NaN''
      | PosInf \<Rightarrow> ''Infinity''
      | NegInf \<Rightarrow> ''-Infinity'')"

fun joinWith :: "string \<Rightarrow> string list \<Rightarrow> string" where
  "joinWith sep [] = []"
| "joinWith sep [x] = x"
| "joinWith sep (x # y # ys) = x @ sep @ joinWith sep (y # ys)"

text \<open>\<^verbatim>\<open>String(v)\<close>; an array joins its elements with commas, null and undefined
  elements being empty.\<close>

fun toStringJS :: "jsval \<Rightarrow> string" where
  "toStringJS JUndefined = ''undefined''"
| "toStringJS JNull = ''null''"
| "toStringJS (JBool b) = (if b then ''true'' else ''false'')"
| "toStringJS (JNum n) = numToString n"
| "toStringJS (JStr s) = s"
| "toStringJS (JArr vs) =
     joinWith '','' (map (\<lambda>v. if v = JUndefined \<or> v = JNull then [] else toStringJS v) vs)"
| "toStringJS (JObj kvs) = ''[object Object]''"
| "toStringJS (JOther s) = s"

text \<open>\<^verbatim>\<open>v.toString()\<close>: null and undefined have no methods.\<close>

definition toStringMethod :: "jsval \<Rightarrow> jserror + string" where
  "toStringMethod v =
     (if nullish v then Inl (TypeError ''Cannot read properties of undefined (reading 'toString')'')
      else Inr (toStringJS v))"

text \<open>
  \<^verbatim>\<open>parseInt(v)\<close> without a radix: the text of \<open>v\<close>, leading white space skipped,
  an optional sign, an optional \<^verbatim>\<open>0x\<close> for base sixteen, then the longest run of
  digits; NaN when there is none.
\<close>

definition hexValue :: "char \<Rightarrow> nat option" where
  "hexValue c =
     (case find (\<lambda>(d, n). d = c) (zip ''0123456789abcdefABCDEF''
                 [0, 1, 2, 3, 4, 5, 6, 7, 8, 9, 10, 11, 12, 13, 14, 15, 10, 11, 12, 13, 14, 15]) of
        Some (d, n) \<Rightarrow> Some n
      | None \<Rightarrow> None)"

definition digitValue :: "nat \<Rightarrow> char \<Rightarrow> nat option" where
  "digitValue radix c =
     (case hexValue c of Some n \<Rightarrow> if n < radix then Some n else None | None \<Rightarrow> None)"

fun digitRun :: "nat \<Rightarrow> nat option \<Rightarrow> string \<Rightarrow> nat option" where
  "digitRun radix acc [] = acc"
| "digitRun radix acc (c # cs) =
     (case digitValue radix c of
        Some n \<Rightarrow> digitRun radix (Some (radix * (case acc of None \<Rightarrow> 0 | Some a \<Rightarrow> a) + n)) cs
      | None \<Rightarrow> acc)"

definition parseIntStr :: "string \<Rightarrow> jsnum" where
  "parseIntStr s =
     (let s1 = dropWhile isSpace s;
          neg = startsWith s1 ''-'';
          s2 = (if startsWith s1 ''-'' \<or> startsWith s1 ''+'' then tl s1 else s1);
          hex = startsWith s2 ''0x'' \<or> startsWith s2 ''0X'';
          s3 = (if hex then drop 2 s2 else s2)
      in case digitRun (if hex then 16 else 10) None s3 of
           None \<Rightarrow> NaN
         | Some n \<Rightarrow> Integer (if neg then - int n else int n))"

definition parseInt :: "jsval \<Rightarrow> jsnum" where
  "parseInt v = parseIntStr (toStringJS v)"

text \<open>
  \<^verbatim>\<open>v[key]\<close> for the keys the sources read (none of them is a property of a
  prototype): null and undefined throw, an object gives its property, every other
  value gives undefined. \<^verbatim>\<open>v?.[key]\<close> gives undefined for null and undefined.
\<close>

definition getProp :: "jsval \<Rightarrow> string \<Rightarrow> jserror + jsval" where
  "getProp v key =
     (case v of
        JUndefined \<Rightarrow> Inl (TypeError ''Cannot read properties of undefined'')
      | JNull \<Rightarrow> Inl (TypeError ''Cannot read properties of null'')
      | JObj kvs \<Rightarrow> Inr (case map_of kvs key of Some x \<Rightarrow> x | None \<Rightarrow> JUndefined)
      | _ \<Rightarrow> Inr JUndefined)"

definition getPropOpt :: "jsval \<Rightarrow> string \<Rightarrow> jsval" where
  "getPropOpt v key =
     (case v of
        JObj kvs \<Rightarrow> (case map_of kvs key of Some x \<Rightarrow> x | None \<Rightarrow> JUndefined)
      | _ \<Rightarrow> JUndefined)"

text \<open>\<^verbatim>\<open>Object.entries(v)\<close> of a value that is not null or undefined: the properties
  of an object, the elements of an array and the characters of a string under their
  indices, nothing for the other values.\<close>

definition entries :: "jsval \<Rightarrow> (string \<times> jsval) list" where
  "entries v =
     (case v of
        JObj kvs \<Rightarrow> kvs
      | JArr vs \<Rightarrow> zip (map digitsOf [0 ..< length vs]) vs
      | JStr s \<Rightarrow> zip (map digitsOf [0 ..< length s]) (map (\<lambda>c. JStr [c]) s)
      | _ \<Rightarrow> [])"

text \<open>
  \<^verbatim>\<open>v == ""\<close>: the empty string, zero, \<^verbatim>\<open>false\<close>, and an array whose text is
  empty. \<^verbatim>\<open>v == t\<close> for a text \<open>t\<close> that is not that of a number: a string equal
  to \<open>t\<close>, or an array, object or function whose text is \<open>t\<close>.
\<close>

definition looseEqEmpty :: "jsval \<Rightarrow> bool" where
  "looseEqEmpty v =
     (case v of
        JStr s \<Rightarrow> s = []
      | JNum n \<Rightarrow> n = Integer 0
      | JBool b \<Rightarrow> \<not> b
      | JArr vs \<Rightarrow> toStringJS v = []
      | JOther s \<Rightarrow> s = []
      | _ \<Rightarrow> False)"

definition looseEqText :: "jsval \<Rightarrow> string \<Rightarrow> bool" where
  "looseEqText v t =
     (case v of
        JStr s \<Rightarrow> s = t
      | JArr vs \<Rightarrow> toStringJS v = t
      | JObj kvs \<Rightarrow> toStringJS v = t
      | JOther s \<Rightarrow> s = t
      | _ \<Rightarrow> False)"

text \<open>
  \<^verbatim>\<open>PhotonPacketBuilder\<close> is required from \<^verbatim>\<open>./PhotonUtils/PhotonPacketBuilder\<close>,
  which is not among the sources. Each function of \<^verbatim>\<open>PhotonPacketBuilder.types\<close>
  that the sources call is a constructor here, applied to the arguments of the call;
  \<open>PTyped\<close> is an object literal \<^verbatim>\<open>{type: t, data: d}\<close> written out by a caller.
  A packet is the request code given to \<^verbatim>\<open>createRequest\<close> and the parameters added by
  \<^verbatim>\<open>addParam\<close>, in the order of the calls.
\<close>

datatype ptype =
    PNull
  | PByte jsval
  | PInteger jsval
  | PFloat jsval
  | PBoolean jsval
  | PString jsval
  | PByteArray "nat list"
  | PIntArray "jsval list"
  | PIntegerArray "jsval list"
  | PStringArray "jsval list"
  | PObjectArray "ptype list"
  | PArray nat "ptype list"
  | PHashTable "(ptype \<times> ptype) list"
  | PVector3 jsnum jsnum jsnum
  | PTyped nat "jsval list"

record packet =
  opCode :: jsnum
  params :: "(jsnum \<times> ptype) list"

definition createRequest :: "jsnum \<Rightarrow> packet" where
  "createRequest code = \<lparr>opCode = code, params = []\<rparr>"

definition addParam :: "jsnum \<Rightarrow> ptype \<Rightarrow> packet \<Rightarrow> packet" where
  "addParam k v p = p\<lparr>params := params p @ [(k, v)]\<rparr>"

text \<open>What a socket is given to send: the buffer of a packet, or bytes written out
  by the caller.\<close>

datatype frame = Buffer packet | Bytes "nat list"

section \<open>PhotonClient\<close>

text \<open>
  The constants module \<^verbatim>\<open>./protocol_reader/constants\<close> is not among the sources
  either: the codes that \<^verbatim>\<open>PhotonClient\<close> and \<^verbatim>\<open>PhotonBot\<close> read from it
  (\<^verbatim>\<open>ParameterCode\<close>, \<^verbatim>\<open>OperationCode\<close>, \<^verbatim>\<open>EventCode\<close>, \<^verbatim>\<open>PacketType\<close>,
  \<^verbatim>\<open>InternalOperationCode\<close>) are parameters of the model.
\<close>

record codes =
  pcCache :: jsnum
  pcActorList :: jsnum
  pcGroup :: jsnum
  pcReceiverGroup :: jsnum
  pcEventForward :: jsnum
  pcCode :: jsnum
  pcData :: jsnum
  opRaiseEvent :: jsnum
  opAuthenticate :: jsnum
  opJoinLobby :: jsnum
  opJoinGame :: jsnum
  opLeave :: jsnum
  evAppStats :: jsnum
  ptInitResponse :: jsnum
  iopPing :: jsnum

text \<open>\<^verbatim>\<open>EventCaching\<close> and \<^verbatim>\<open>ReceiverGroup\<close>, as the file defines them.\<close>

definition DoNotCache :: jsnum where "DoNotCache = Integer 0"
definition RemoveFromRoomCache :: jsnum where "RemoveFromRoomCache = Integer 6"
definition RemoveFromRoomCacheForActorsLeft :: jsnum where "RemoveFromRoomCacheForActorsLeft = Integer 7"
definition SliceIncreaseIndex :: jsnum where "SliceIncreaseIndex = Integer 10"
definition SliceSetIndex :: jsnum where "SliceSetIndex = Integer 11"
definition SlicePurgeIndex :: jsnum where "SlicePurgeIndex = Integer 12"
definition SlicePurgeUpToIndex :: jsnum where "SlicePurgeUpToIndex = Integer 13"
definition Others :: jsnum where "Others = Integer 0"

record raiseFlags =
  HttpForward :: bool
  WebhookFlags :: jsnum

record RaiseEventOptions =
  CachingOption :: jsnum
  TargetActors :: "jsval list option"
  InterestGroup :: jsnum
  Receivers :: jsnum
  Flags :: raiseFlags
  CacheSliceIndex :: jsnum

record SendOptions =
  Reliability :: bool
  Channel :: jsnum
  Encrypt :: bool

text \<open>
  \<^verbatim>\<open>opParameters\<close> is a JavaScript \<^verbatim>\<open>Map\<close>: \<^verbatim>\<open>set\<close> replaces the value of a key
  that is present, at its place, and appends a new key; \<^verbatim>\<open>entries()\<close> iterates in
  that order.
\<close>

fun mapSet :: "'k \<Rightarrow> 'v \<Rightarrow> ('k \<times> 'v) list \<Rightarrow> ('k \<times> 'v) list" where
  "mapSet k v [] = [(k, v)]"
| "mapSet k v ((k', v') # m) = (if k' = k then (k, v) # m else (k', v') # mapSet k v m)"

text \<open>
  The client holds the map and the socket. What \<^verbatim>\<open>socket.send\<close> does belongs to the
  WebSocket library: it is the parameter \<open>send\<close>, which gives the socket after the call
  or the exception the call throws.
\<close>

record 'sock PhotonClient =
  opParameters :: "(jsnum \<times> ptype) list"
  socket :: 'sock

fun convertToPhotonType :: "jsval \<Rightarrow> ptype" where
  "convertToPhotonType JUndefined = PNull"
| "convertToPhotonType JNull = PNull"
| "convertToPhotonType (JStr s) = PString (JStr s)"
| "convertToPhotonType (JBool b) = PBoolean (JBool b)"
| "convertToPhotonType (JNum n) = (if isInteger n then PInteger (JNum n) else PFloat (JNum n))"
| "convertToPhotonType (JArr vs) =
     (if list_all (\<lambda>item. case item of JNum n \<Rightarrow> isInteger n | _ \<Rightarrow> False) vs
      then PIntArray vs
      else if length vs = 0 then PObjectArray []
      else if (case hd vs of JStr _ \<Rightarrow> True | _ \<Rightarrow> False) then PStringArray vs
      else PObjectArray (map convertToPhotonType vs))"
| "convertToPhotonType (JObj kvs) =
     PHashTable (map (\<lambda>kv. (PString (JStr (fst kv)), convertToPhotonType (snd kv))) kvs)"
| "convertToPhotonType (JOther s) = PString (JStr s)"

definition SendOperation ::
  "('sock \<Rightarrow> frame \<Rightarrow> jserror + 'sock) \<Rightarrow> jsnum \<Rightarrow> (jsnum \<times> ptype) list \<Rightarrow> SendOptions option
     \<Rightarrow> 'sock PhotonClient \<Rightarrow> jserror + (bool \<times> 'sock PhotonClient)" where
  "SendOperation send operationCode parameters sendOptions c =
     (let packet = fold (\<lambda>(key, v) p. addParam key v p) parameters (createRequest operationCode)
      in case send (socket c) (Buffer packet) of
           Inl e \<Rightarrow> Inl e
         | Inr sock' \<Rightarrow> Inr (True, c\<lparr>socket := sock'\<rparr>))"

text \<open>
  The end of \<^verbatim>\<open>OpRaiseEvent\<close>, reached from the cases of the \<^verbatim>\<open>switch\<close> that
  \<^verbatim>\<open>break\<close> and when there are no options: the event code, the content when there
  is one, and the send.
\<close>

definition raiseEventSend ::
  "('sock \<Rightarrow> frame \<Rightarrow> jserror + 'sock) \<Rightarrow> codes \<Rightarrow> jsnum \<Rightarrow> jsval
     \<Rightarrow> SendOptions option \<Rightarrow> 'sock PhotonClient \<Rightarrow> jserror + (bool \<times> 'sock PhotonClient)" where
  "raiseEventSend send k eventCode customEventContent sendOptions c0 =
     (let c = c0\<lparr>opParameters := mapSet (pcCode k) (PByte (JNum eventCode)) (opParameters c0)\<rparr>;
          c = (if customEventContent \<noteq> JNull \<and> customEventContent \<noteq> JUndefined
               then c\<lparr>opParameters :=
                      mapSet (pcData k) (convertToPhotonType customEventContent) (opParameters c)\<rparr>
               else c)
      in SendOperation send (opRaiseEvent k) (opParameters c) sendOptions c)"

text \<open>The three places where \<^verbatim>\<open>OpRaiseEvent\<close> fills the map from the options.\<close>

definition setCache :: "codes \<Rightarrow> RaiseEventOptions \<Rightarrow> 'sock PhotonClient \<Rightarrow> 'sock PhotonClient" where
  "setCache k opts c =
     (if CachingOption opts \<noteq> DoNotCache
      then c\<lparr>opParameters := mapSet (pcCache k) (PByte (JNum (CachingOption opts))) (opParameters c)\<rparr>
      else c)"

definition setActorList :: "codes \<Rightarrow> jsval list \<Rightarrow> 'sock PhotonClient \<Rightarrow> 'sock PhotonClient" where
  "setActorList k actors c =
     c\<lparr>opParameters := mapSet (pcActorList k) (PIntegerArray actors) (opParameters c)\<rparr>"

definition setReceivers :: "codes \<Rightarrow> RaiseEventOptions \<Rightarrow> 'sock PhotonClient \<Rightarrow> 'sock PhotonClient" where
  "setReceivers k opts c =
     (case TargetActors opts of
        Some actors \<Rightarrow> setActorList k actors c
      | None \<Rightarrow>
          if InterestGroup opts \<noteq> Integer 0
          then c\<lparr>opParameters := mapSet (pcGroup k) (PByte (JNum (InterestGroup opts))) (opParameters c)\<rparr>
          else if Receivers opts \<noteq> Others
          then c\<lparr>opParameters := mapSet (pcReceiverGroup k) (PByte (JNum (Receivers opts))) (opParameters c)\<rparr>
          else c)"

definition setForward :: "codes \<Rightarrow> RaiseEventOptions \<Rightarrow> 'sock PhotonClient \<Rightarrow> 'sock PhotonClient" where
  "setForward k opts c =
     (if HttpForward (Flags opts)
      then c\<lparr>opParameters :=
             mapSet (pcEventForward k) (PByte (JNum (WebhookFlags (Flags opts)))) (opParameters c)\<rparr>
      else c)"

definition OpRaiseEvent ::
  "('sock \<Rightarrow> frame \<Rightarrow> jserror + 'sock) \<Rightarrow> codes \<Rightarrow> jsnum \<Rightarrow> jsval \<Rightarrow> RaiseEventOptions option
     \<Rightarrow> SendOptions option \<Rightarrow> 'sock PhotonClient \<Rightarrow> jserror + (bool \<times> 'sock PhotonClient)" where
  "OpRaiseEvent send k eventCode customEventContent raiseEventOptions sendOptions c0 =
     (let c = c0\<lparr>opParameters := []\<rparr>
      in case raiseEventOptions of
           None \<Rightarrow> raiseEventSend send k eventCode customEventContent sendOptions c
         | Some opts \<Rightarrow>
             let c = setCache k opts c
             in if CachingOption opts = SliceSetIndex \<or> CachingOption opts = SlicePurgeIndex
                   \<or> CachingOption opts = SlicePurgeUpToIndex
                then SendOperation send (opRaiseEvent k) (opParameters c) sendOptions c
                else if CachingOption opts = SliceIncreaseIndex
                   \<or> CachingOption opts = RemoveFromRoomCacheForActorsLeft
                then SendOperation send (opRaiseEvent k) (opParameters c) sendOptions c
                else if CachingOption opts = RemoveFromRoomCache
                then raiseEventSend send k eventCode customEventContent sendOptions
                       (case TargetActors opts of
                          Some actors \<Rightarrow> setActorList k actors c
                        | None \<Rightarrow> c)
                else raiseEventSend send k eventCode customEventContent sendOptions
                       (setForward k opts (setReceivers k opts c)))"

text \<open>The outcome of a call that hands one packet of operation \<open>op\<close> to the socket:
  the exception of \<^verbatim>\<open>send\<close>, or \<^verbatim>\<open>true\<close> with the packet's parameters left in the map.\<close>

definition sentOnce ::
  "('sock \<Rightarrow> frame \<Rightarrow> jserror + 'sock) \<Rightarrow> jsnum \<Rightarrow> 'sock \<Rightarrow> jserror + (bool \<times> 'sock PhotonClient) \<Rightarrow> bool" where
  "sentOnce send op sock r \<longleftrightarrow>
     (\<exists>ps. r = (case send sock (Buffer \<lparr>opCode = op, params = ps\<rparr>) of
                  Inl e \<Rightarrow> Inl e
                | Inr s' \<Rightarrow> Inr (True, \<lparr>opParameters = ps, socket = s'\<rparr>)))"

section \<open>PhotonBot: the session and what surrounds it\<close>

subsection \<open>Sockets, timers, promises\<close>

text \<open>
  A session is driven by events: a socket opens, a message arrives, a timer is due, a
  fetch settles, the management interface calls a method. Each event runs one handler
  to its end (or to its first \<^verbatim>\<open>await\<close>) before the next event, so the model is a
  step function on a state that holds the bot's fields and what the handlers reach
  through them: the sockets, the timers, the promises of \<^verbatim>\<open>joinRoom\<close> and the
  handlers that wait for an auth code.

  A socket is referred to by its index in \<open>sockets\<close>. Its handlers are those of
  \<^verbatim>\<open>setupLobbySocket\<close> or of \<^verbatim>\<open>setupGameSocket\<close>; \<open>waiters\<close> lists the wrappers that
  later calls of \<^verbatim>\<open>joinRoom\<close> put around \<^verbatim>\<open>onmessage\<close>, each with the timer it clears
  and the promise it resolves. \<open>sent\<close> is what the socket accepted for sending.
\<close>

datatype readyState = CONNECTING | OPEN | CLOSING | CLOSED

datatype role = LobbyRole | GameRole

record websocket =
  url :: jsval
  readyState :: readyState
  role :: role
  waiters :: "(nat \<times> nat) list"
  sent :: "frame list"

datatype action = JoinFromLobby | PingTick nat | StatusTick nat | JoinTimeout nat

record timer =
  delay :: nat
  repeating :: bool
  action :: action
  active :: bool

datatype settled = Pending | Resolved | Rejected jserror

text \<open>A packet as \<^verbatim>\<open>ProtocolReader.readPacket\<close> returns it (the reader is not among
  the sources): the handlers read \<^verbatim>\<open>code\<close>, \<^verbatim>\<open>params[...]\<close> and
  \<^verbatim>\<open>debugMessage\<close>.\<close>

record inPacket =
  code :: jsnum
  inParams :: "(string \<times> jsval) list"
  debugMessage :: jsval

definition param :: "inPacket \<Rightarrow> string \<Rightarrow> jsval" where
  "param p key = (case map_of (inParams p) key of Some v \<Rightarrow> v | None \<Rightarrow> JUndefined)"

record account =
  username :: string
  password :: string
  hashedPassword :: string

text \<open>
  \<^verbatim>\<open>lastActorNr\<close> starts as the number 1, \<^verbatim>\<open>joinRoom\<close> adds one to it, and the
  handler of event 255 stores the second piece of a split text in it, which is a
  string or undefined. Adding one to a string appends \<^verbatim>\<open>"1"\<close>; adding one to
  undefined gives NaN.
\<close>

datatype actornr = NrNumber int | NrNaN | NrString string | NrUndefined

definition plusOne :: "actornr \<Rightarrow> actornr" where
  "plusOne n =
     (case n of
        NrNumber i \<Rightarrow> NrNumber (i + 1)
      | NrNaN \<Rightarrow> NrNaN
      | NrString s \<Rightarrow> NrString (s @ ''1'')
      | NrUndefined \<Rightarrow> NrNaN)"

definition nrToString :: "actornr \<Rightarrow> jserror + string" where
  "nrToString n =
     (case n of
        NrNumber i \<Rightarrow> Inr (numToString (Integer i))
      | NrNaN \<Rightarrow> Inr ''NaN''
      | NrString s \<Rightarrow> Inr s
      | NrUndefined \<Rightarrow> Inl (TypeError ''Cannot read properties of undefined (reading 'toString')''))"

record player =
  name :: string
  actorNr :: jsnum
  rank :: jsnum
  kd :: jsval
  team :: jsnum
  kills :: jsnum
  platform :: jsval

text \<open>The fields of the bot that its methods read or write. (\<^verbatim>\<open>photonClient\<close> and
  \<^verbatim>\<open>previousActorList\<close> are written once and never read.) Each element of
  \<open>players\<close> is an object with one property, the actor number.\<close>

record bot =
  botId :: string
  players :: "(string \<times> player) list"
  lastActorNr :: actornr
  showJoinMessageInChat :: bool
  lobbySocket :: "nat option"
  authSent :: bool
  gameSocket :: "nat option"
  authToken :: jsval
  account :: "account option"
  isInGame :: bool
  isInRoom :: bool
  alreadyJoined :: bool
  startTime :: int
  lastPing :: int
  serverTickOffset :: int
  gameRoomName :: string
  serverAddress :: jsval

record world =
  bot :: bot
  sockets :: "websocket list"
  timers :: "timer list"
  joins :: "settled list"
  fetches :: "(inPacket \<times> bool) list"
  faults :: "jserror list"
  responses :: "nat list"

text \<open>What a handler takes from outside the program while it runs: the clock and the
  results of the random generators, of reading the accounts file and of hashing.\<close>

record env =
  now :: int
  uuid :: string
  clanTag :: string
  randomBinary :: int
  randomRank :: int
  randomAccount :: "(string \<times> string) option"
  sha512 :: "string \<Rightarrow> string"

definition newBot :: "string \<Rightarrow> int \<Rightarrow> bot" where
  "newBot ident t =
     \<lparr>botId = ident, players = [], lastActorNr = NrNumber 1, showJoinMessageInChat = True,
      lobbySocket = None, authSent = False, gameSocket = None, authToken = JStr [],
      account = None, isInGame = False, isInRoom = False, alreadyJoined = False,
      startTime = t, lastPing = 0, serverTickOffset = 0, gameRoomName = [],
      serverAddress = JStr []\<rparr>"

definition newWorld :: "bot \<Rightarrow> world" where
  "newWorld b =
     \<lparr>bot = b, sockets = [], timers = [], joins = [], fetches = [], faults = [], responses = []\<rparr>"

subsection \<open>Statements\<close>

text \<open>
  A statement changes the state and then goes on to the next statement, returns from
  the handler, or throws. A block runs its statements in order up to the first that
  does not go on.
\<close>

datatype outcome = Next | Return | Throw jserror

type_synonym act = "world \<Rightarrow> world \<times> outcome"

definition skip :: act where
  "skip w = (w, Next)"

definition ret :: act where
  "ret w = (w, Return)"

definition throw :: "jserror \<Rightarrow> act" where
  "throw e w = (w, Throw e)"

fun block :: "act list \<Rightarrow> act" where
  "block [] w = (w, Next)"
| "block (a # as) w = (case a w of (w', Next) \<Rightarrow> block as w' | r \<Rightarrow> r)"

definition ifDo :: "(world \<Rightarrow> bool) \<Rightarrow> act \<Rightarrow> act" where
  "ifDo c a w = (if c w then a w else (w, Next))"

definition updBot :: "(bot \<Rightarrow> bot) \<Rightarrow> act" where
  "updBot f w = (w\<lparr>bot := f (bot w)\<rparr>, Next)"

text \<open>A statement that reads fields of the bot when it runs.\<close>

definition withBot :: "(bot \<Rightarrow> act) \<Rightarrow> act" where
  "withBot f w = f (bot w) w"

text \<open>
  The WebSocket interface, as the library implements it: \<^verbatim>\<open>send\<close> throws while the
  socket is connecting, hands the data over while it is open, and discards it once the
  socket is closing or closed; \<^verbatim>\<open>close\<close> starts the closing of a socket that is
  connecting or open. The constructor throws a SyntaxError for an address that is not
  a WebSocket URL.
\<close>

definition sockSend :: "nat \<Rightarrow> frame \<Rightarrow> act" where
  "sockSend i f w =
     (if i < length (sockets w) then
        (case readyState (sockets w ! i) of
           CONNECTING \<Rightarrow> (w, Throw (Error ''WebSocket is not open: readyState 0 (CONNECTING)''))
         | OPEN \<Rightarrow>
             (w\<lparr>sockets := (sockets w)[i := (sockets w ! i)\<lparr>sent := sent (sockets w ! i) @ [f]\<rparr>]\<rparr>,
              Next)
         | _ \<Rightarrow> (w, Next))
      else (w, Throw (TypeError ''Cannot read properties of undefined (reading 'send')'')))"

definition sockClose :: "nat \<Rightarrow> act" where
  "sockClose i w =
     (if i < length (sockets w) then
        (if readyState (sockets w ! i) = CONNECTING \<or> readyState (sockets w ! i) = OPEN
         then (w\<lparr>sockets := (sockets w)[i := (sockets w ! i)\<lparr>readyState := CLOSING\<rparr>]\<rparr>, Next)
         else (w, Next))
      else (w, Throw (TypeError ''Cannot read properties of undefined (reading 'close')'')))"

text \<open>\<^verbatim>\<open>this.lobbySocket.send(...)\<close>, \<^verbatim>\<open>this.gameSocket.send(...)\<close>,
  \<^verbatim>\<open>this.lobbySocket.close()\<close>: the field is read when the statement runs.\<close>

definition sendOn :: "(bot \<Rightarrow> nat option) \<Rightarrow> frame \<Rightarrow> act" where
  "sendOn field f w =
     (case field (bot w) of
        None \<Rightarrow> (w, Throw (TypeError ''Cannot read properties of undefined (reading 'send')''))
      | Some i \<Rightarrow> sockSend i f w)"

definition closeOn :: "(bot \<Rightarrow> nat option) \<Rightarrow> act" where
  "closeOn field w =
     (case field (bot w) of
        None \<Rightarrow> (w, Throw (TypeError ''Cannot read properties of undefined (reading 'close')''))
      | Some i \<Rightarrow> sockClose i w)"

definition validUrl :: "jsval \<Rightarrow> bool" where
  "validUrl v = (case v of JStr s \<Rightarrow> startsWith s ''ws://'' \<or> startsWith s ''wss://'' | _ \<Rightarrow> False)"

definition newSocket :: "jsval \<Rightarrow> role \<Rightarrow> websocket" where
  "newSocket address r =
     \<lparr>url = address, readyState = CONNECTING, role = r, waiters = [], sent = []\<rparr>"

definition setTimer :: "nat \<Rightarrow> bool \<Rightarrow> action \<Rightarrow> act" where
  "setTimer ms rep a w =
     (w\<lparr>timers := timers w @ [\<lparr>delay = ms, repeating = rep, action = a, active = True\<rparr>]\<rparr>, Next)"

definition clearTimer :: "nat \<Rightarrow> world \<Rightarrow> world" where
  "clearTimer t w =
     (if t < length (timers w) then w\<lparr>timers := (timers w)[t := (timers w ! t)\<lparr>active := False\<rparr>]\<rparr>
      else w)"

text \<open>Resolving or rejecting a promise that is already settled does nothing.\<close>

definition settle :: "nat \<Rightarrow> settled \<Rightarrow> world \<Rightarrow> world" where
  "settle p r w =
     (if p < length (joins w) \<and> joins w ! p = Pending then w\<lparr>joins := (joins w)[p := r]\<rparr> else w)"

definition doSettle :: "nat \<Rightarrow> settled \<Rightarrow> act" where
  "doSettle p r w = (settle p r w, Next)"

subsection \<open>The packets the bot sends\<close>

definition request :: "jsnum \<Rightarrow> (jsnum \<times> ptype) list \<Rightarrow> packet" where
  "request c ps = fold (\<lambda>(k, v) p. addParam k v p) ps (createRequest c)"

definition byte :: "int \<Rightarrow> ptype" where
  "byte n = PByte (JNum (Integer n))"

definition integer :: "int \<Rightarrow> ptype" where
  "integer n = PInteger (JNum (Integer n))"

definition str :: "string \<Rightarrow> ptype" where
  "str s = PString (JStr s)"

definition tickCount :: "env \<Rightarrow> bot \<Rightarrow> int" where
  "tickCount e b = now e - startTime b"

definition serverTime :: "env \<Rightarrow> bot \<Rightarrow> int" where
  "serverTime e b = tickCount e b + serverTickOffset b"

definition pingPacket :: "int \<Rightarrow> packet" where
  "pingPacket ticks = request (Integer 1) [(Integer 1, integer ticks)]"

definition pingLoopPacket :: "codes \<Rightarrow> packet" where
  "pingLoopPacket k = request (iopPing k) [(Integer 1, integer 89)]"

definition authParamsPacket :: "codes \<Rightarrow> env \<Rightarrow> packet" where
  "authParamsPacket k e =
     request (opAuthenticate k)
       [(Integer 220, str ''1.104.5_HC_1.105''),
        (Integer 224, str ''8c2cad3e-2e3f-4941-9044-b390ff2c4956''),
        (Integer 210, str ''eu/*''),
        (Integer 225, str (uuid e))]"

definition gameAuthPacket :: "codes \<Rightarrow> jsval \<Rightarrow> packet" where
  "gameAuthPacket k token = request (opAuthenticate k) [(Integer 221, PString token)]"

definition joinLobbyPacket :: "codes \<Rightarrow> packet" where
  "joinLobbyPacket k = request (opJoinLobby k) []"

definition joinRoomPacket :: "env \<Rightarrow> string \<Rightarrow> string \<Rightarrow> packet" where
  "joinRoomPacket e roomName user =
     request (Integer 226)
       [(Integer 255, str roomName),
        (Integer 249, PHashTable
          [(str ''platform'', str ''MeowEngine Bot Panel''),
           (str ''teamNumber'', byte (randomBinary e)),
           (str ''rank'', byte (randomRank e)),
           (str ''killstreak'', byte 15),
           (str ''characterCamo'', byte 0),
           (str ''bulletTracerColor'', byte 1),
           (str ''glovesCamo'', byte 16),
           (str ''unlockedweapons'', PArray 0x69 [integer 0, integer 0, integer 0]),
           (str ''current_kills_in_killstreak'', integer 0),
           (str ''kd'', PFloat (JNum (Dec ''8.511835098266602''))),
           (str ''perks'', PByteArray [1, 9, 14, 2, 22, 0, 0, 0]),
           (str ''current_vehicle_view_id'', integer 4294967295),
           (str ''up_to_date_version'', str ''1.104.5_HC''),
           (str ''throwable_type'', integer 12),
           (str ''throwable_amount'', integer 3),
           (str ''nextCreateRoomPass'', str ''''),
           (byte 255, str (clanTag e @ '' '' @ user))]),
        (Integer 250, PBoolean (JBool True))]"

definition joinNotifyPacket :: "codes \<Rightarrow> env \<Rightarrow> string \<Rightarrow> packet" where
  "joinNotifyPacket k e user =
     request (opRaiseEvent k)
       [(Integer 244, byte 252),
        (Integer 245, PHashTable
          [(byte 250, PBoolean (JBool True)),
           (byte 251, str (clanTag e @ '' '' @ user)),
           (byte 254, byte 292)]),
        (Integer 246, byte 1)]"

text \<open>\<^verbatim>\<open>parseInt(this.lastActorNr.toString() + "001")\<close>\<close>

definition entityId :: "actornr \<Rightarrow> jserror + jsnum" where
  "entityId n = (case nrToString n of Inl e \<Rightarrow> Inl e | Inr s \<Rightarrow> Inr (parseIntStr (s @ ''001'')))"

definition spawnPacket :: "codes \<Rightarrow> int \<Rightarrow> jsnum \<Rightarrow> packet" where
  "spawnPacket k time ident =
     request (opRaiseEvent k)
       [(Integer 244, byte 200),
        (Integer 245, PHashTable
          [(byte 0, PInteger (JNum ident)),
           (byte 2, integer time),
           (byte 5, integer 87),
           (byte 4, PVector3 (Dec ''55.17207336425781'') (Dec ''0.09000000357627869'')
                      (Dec ''62.27178955078125''))]),
        (Integer 246, byte 1)]"

definition authTokenPacket :: "codes \<Rightarrow> int \<Rightarrow> jsnum \<Rightarrow> string \<Rightarrow> packet" where
  "authTokenPacket k time ident token =
     request (opRaiseEvent k)
       [(Integer 244, byte 200),
        (Integer 245, PHashTable
          [(byte 0, PInteger (JNum ident)),
           (byte 2, integer time),
           (byte 4, PObjectArray [str token]),
           (byte 5, byte 88)]),
        (Integer 246, byte 1)]"

text \<open>The bytes of the base64 text in \<^verbatim>\<open>idkWhatPacketThisIs\<close>.\<close>

definition idkBytes :: "nat list" where
  "idkBytes =
     [243, 2, 252, 0, 3, 251, 104, 0, 1, 98, 255, 115, 0, 14, 91, 93, 80, 67, 45, 78, 101,
      120, 116, 84, 111, 89, 111, 117, 254, 105, 0, 0, 0, 35, 250, 111, 1]"

definition playerBodyPacket :: "codes \<Rightarrow> int \<Rightarrow> jsnum \<Rightarrow> packet" where
  "playerBodyPacket k time ident =
     request (opRaiseEvent k)
       [(Integer 244, byte 202),
        (Integer 245, PHashTable
          [(byte 0, str ''PlayerBody''),
           (byte 6, integer time),
           (byte 7, PInteger (JNum ident))])]"

definition presencePacket :: "codes \<Rightarrow> packet" where
  "presencePacket k =
     request (opRaiseEvent k)
       [(Integer 244, byte 252),
        (Integer 250, PBoolean (JBool True)),
        (Integer 251, str ''MeowEngine Bot Panel''),
        (Integer 245, integer 292)]"

definition craftedPacket :: packet where
  "craftedPacket =
     request (Integer 253)
       [(Integer 244, byte 200),
        (Integer 245, PHashTable
          [(byte 0, integer 2), (byte 2, integer 2853182596), (byte 5, byte 73)])]"

definition leaveRoomPacket :: "codes \<Rightarrow> packet" where
  "leaveRoomPacket k = request (opLeave k) [(Integer 245, PBoolean (JBool True))]"

definition joinGamePacket :: "codes \<Rightarrow> string \<Rightarrow> packet" where
  "joinGamePacket k roomName = request (opJoinGame k) [(Integer 255, str roomName)]"

subsection \<open>The methods that send\<close>

definition withUser :: "(string \<Rightarrow> act) \<Rightarrow> act" where
  "withUser f w =
     (case account (bot w) of
        None \<Rightarrow> (w, Throw (TypeError ''Cannot read properties of null (reading 'username')''))
      | Some a \<Rightarrow> f (username a) w)"

definition withEntityId :: "(jsnum \<Rightarrow> act) \<Rightarrow> act" where
  "withEntityId f w =
     (case entityId (lastActorNr (bot w)) of
        Inl e \<Rightarrow> (w, Throw e)
      | Inr ident \<Rightarrow> f ident w)"

definition sendPing :: "env \<Rightarrow> (bot \<Rightarrow> nat option) \<Rightarrow> act" where
  "sendPing e field = withBot (\<lambda>b. sendOn field (Buffer (pingPacket (tickCount e b))))"

definition sendAuthParams :: "codes \<Rightarrow> env \<Rightarrow> act" where
  "sendAuthParams k e = sendOn lobbySocket (Buffer (authParamsPacket k e))"

definition sendGameAuth :: "codes \<Rightarrow> act" where
  "sendGameAuth k =
     block [withBot (\<lambda>b. sendOn gameSocket (Buffer (gameAuthPacket k (authToken b)))),
            updBot (\<lambda>b. b\<lparr>authSent := True\<rparr>)]"

definition sendJoinLobby :: "codes \<Rightarrow> act" where
  "sendJoinLobby k = sendOn lobbySocket (Buffer (joinLobbyPacket k))"

definition sendJoinRoomWithProperties :: "env \<Rightarrow> act" where
  "sendJoinRoomWithProperties e =
     withUser (\<lambda>user. withBot (\<lambda>b.
       sendOn gameSocket (Buffer (joinRoomPacket e (gameRoomName b) user))))"

definition sendJoinNotify :: "codes \<Rightarrow> env \<Rightarrow> act" where
  "sendJoinNotify k e = withUser (\<lambda>user. sendOn gameSocket (Buffer (joinNotifyPacket k e user)))"

definition spawnPlayer :: "codes \<Rightarrow> env \<Rightarrow> act" where
  "spawnPlayer k e =
     withEntityId (\<lambda>ident. withBot (\<lambda>b. sendOn gameSocket (Buffer (spawnPacket k (serverTime e b) ident))))"

definition sendAuthToken :: "codes \<Rightarrow> env \<Rightarrow> string \<Rightarrow> act" where
  "sendAuthToken k e token =
     withEntityId (\<lambda>ident. withBot (\<lambda>b.
       sendOn gameSocket (Buffer (authTokenPacket k (serverTime e b) ident token))))"

definition idkWhatPacketThisIs :: act where
  "idkWhatPacketThisIs = sendOn gameSocket (Bytes idkBytes)"

definition sendPlayerBodyPacket :: "codes \<Rightarrow> env \<Rightarrow> act" where
  "sendPlayerBodyPacket k e =
     block [withEntityId (\<lambda>ident. withBot (\<lambda>b.
              sendOn gameSocket (Buffer (playerBodyPacket k (serverTime e b) ident)))),
            sendOn gameSocket (Buffer (presencePacket k))]"

definition sendLeaveRoomPacket :: "codes \<Rightarrow> act" where
  "sendLeaveRoomPacket k = sendOn gameSocket (Buffer (leaveRoomPacket k))"

definition leaveRoom :: "codes \<Rightarrow> act" where
  "leaveRoom k = sendLeaveRoomPacket k"

definition joinRoomFromLobby :: "codes \<Rightarrow> string \<Rightarrow> act" where
  "joinRoomFromLobby k roomName = sendOn lobbySocket (Buffer (joinGamePacket k roomName))"

text \<open>\<^verbatim>\<open>pingLoop(socket)\<close>: two intervals on the socket it is given, never cleared.\<close>

definition pingLoop :: "nat \<Rightarrow> act" where
  "pingLoop g = block [setTimer 2000 True (PingTick g), setTimer 5000 True (StatusTick g)]"

subsection \<open>The roster\<close>

definition cleanUsername :: "jsval \<Rightarrow> jserror + string" where
  "cleanUsername rawName =
     (case rawName of
        JStr s \<Rightarrow>
          Inr (trim (rxremoveStart clanPrefixPattern
                 (removeAll_str ''</color>'' (rxremoveAll colorTagPattern s))))
      | _ \<Rightarrow> Inl (TypeError ''rawName.replaceAll is not a function''))"

definition second :: "string list \<Rightarrow> jsval" where
  "second xs = (case xs of a # b # _ \<Rightarrow> JStr b | _ \<Rightarrow> JUndefined)"

text \<open>The body of the loop over the entries of parameter 249, for a key that starts
  with \<^verbatim>\<open>int32\<close>.\<close>

definition playerOf :: "string \<Rightarrow> jsval \<Rightarrow> jserror + (string \<times> player)" where
  "playerOf key v =
     (let nr = parseInt (second (splitOn key '' ''))
      in case getProp v ''int8 255'' of
           Inl e \<Rightarrow> Inl e
         | Inr raw \<Rightarrow>
             (case cleanUsername (orElse raw (JStr ''Unknown'')) of
                Inl e \<Rightarrow> Inl e
              | Inr nm \<Rightarrow>
                  Inr (numToString nr,
                       \<lparr>name = nm,
                        actorNr = nr,
                        rank = parseInt (orElse (getPropOpt (getPropOpt v ''rank'') ''value'')
                                           (JNum (Integer 0))),
                        kd = orElse (getPropOpt (getPropOpt v ''kd'') ''value'') (JNum (Integer 0)),
                        team = parseInt (orElse (getPropOpt (getPropOpt v ''teamNumber'') ''value'')
                                           (JNum (Integer 0))),
                        kills = parseInt
                          (orElse (getPropOpt (getPropOpt v ''current_kills_in_killstreak'') ''value'')
                             (JNum (Integer 0))),
                        platform = orElse (getPropOpt v ''platform'') (JStr ''Unknown'')\<rparr>)))"

fun addPlayers :: "(string \<times> jsval) list \<Rightarrow> act" where
  "addPlayers [] w = (w, Next)"
| "addPlayers ((key, v) # rest) w =
     (if \<not> startsWith key ''int32'' then addPlayers rest w
      else case playerOf key v of
             Inl e \<Rightarrow> (w, Throw e)
           | Inr p \<Rightarrow> addPlayers rest (w\<lparr>bot := (bot w)\<lparr>players := players (bot w) @ [p]\<rparr>\<rparr>))"

subsection \<open>The handlers of the lobby socket\<close>

text \<open>
  \<^verbatim>\<open>setupLobbySocket\<close>. In the branch for the authenticate response the filtered room
  list is computed and not used; the timeout it sets calls \<^verbatim>\<open>joinRoomFromLobby\<close>
  one second later.
\<close>

definition connectToGameServer :: act where
  "connectToGameServer w =
     (if validUrl (serverAddress (bot w))
      then (w\<lparr>sockets := sockets w @ [newSocket (serverAddress (bot w)) GameRole],
              bot := (bot w)\<lparr>gameSocket := Some (length (sockets w))\<rparr>\<rparr>, Next)
      else (w, Throw (SyntaxError ''Invalid URL'')))"

definition lobbyOnOpen :: "env \<Rightarrow> act" where
  "lobbyOnOpen e = sendPing e lobbySocket"

definition lobbyOnMessage :: "codes \<Rightarrow> env \<Rightarrow> inPacket \<Rightarrow> act" where
  "lobbyOnMessage k e packet =
     block
      [ifDo (\<lambda>w. numEq (code packet) (ptInitResponse k)) (sendAuthParams k e),
       ifDo (\<lambda>w. numEq (code packet) (opAuthenticate k))
         (block
           [ifDo (\<lambda>w. truthy (param packet ''222''))
              (block
                [ifDo (\<lambda>w. isInRoom (bot w)) ret,
                 ifDo (\<lambda>w. gameRoomName (bot w) \<noteq> [])
                   (block
                     [updBot (\<lambda>b. b\<lparr>isInRoom := True\<rparr>),
                      setTimer 1000 False JoinFromLobby])]),
            ifDo (\<lambda>w. looseEqEmpty (authToken (bot w)))
              (updBot (\<lambda>b. b\<lparr>authToken := param packet ''221''\<rparr>)),
            sendJoinLobby k]),
       ifDo (\<lambda>w. numEq (code packet) (evAppStats k))
         (block
           [ifDo (\<lambda>w. looseEqText (debugMessage packet) ''Game does not exists'') ret,
            ifDo (\<lambda>w. looseEqEmpty (serverAddress (bot w)) \<and> truthy (param packet ''230''))
              (block
                [updBot (\<lambda>b. b\<lparr>serverAddress := param packet ''230''\<rparr>),
                 connectToGameServer])])]"

subsection \<open>The handlers of the game socket\<close>

text \<open>\<^verbatim>\<open>gameSocket.onopen\<close>: the lobby socket is closed, the clock is reset, a ping is
  sent and the two intervals of \<^verbatim>\<open>pingLoop\<close> are started on the game socket.\<close>

definition gameOnOpen :: "env \<Rightarrow> act" where
  "gameOnOpen e =
     block
      [closeOn lobbySocket,
       updBot (\<lambda>b. b\<lparr>startTime := now e, lastPing := 0, serverTickOffset := 0\<rparr>),
       sendPing e gameSocket,
       withBot (\<lambda>b. case gameSocket b of None \<Rightarrow> skip | Some g \<Rightarrow> pingLoop g)]"

text \<open>
  \<^verbatim>\<open>gameSocket.onmessage\<close> up to its \<^verbatim>\<open>await\<close>. \<^verbatim>\<open>getAuthCode\<close> throws when there
  is no account; otherwise the handler waits for the fetch, and \<open>fetches\<close> records the
  packet it was called with.
\<close>

definition awaitAuthCode :: "inPacket \<Rightarrow> act" where
  "awaitAuthCode packet w =
     (case account (bot w) of
        None \<Rightarrow> (w, Throw (Error ''No account generated. Call generateAccount() first.''))
      | Some a \<Rightarrow> (w\<lparr>fetches := fetches w @ [(packet, True)]\<rparr>, Next))"

definition gameOnMessage :: "codes \<Rightarrow> env \<Rightarrow> inPacket \<Rightarrow> act" where
  "gameOnMessage k e packet =
     block
      [ifDo (\<lambda>w. numEq (code packet) (opJoinGame k) \<and> truthy (param packet ''249''))
         (block
           [ifDo (\<lambda>w. isInGame (bot w)) ret,
            updBot (\<lambda>b. b\<lparr>isInGame := True\<rparr>),
            addPlayers (entries (param packet ''249''))]),
       ifDo (\<lambda>w. numEq (code packet) (ptInitResponse k)) (sendGameAuth k),
       ifDo (\<lambda>w. numEq (code packet) (opAuthenticate k))
         (block [sendJoinRoomWithProperties e, idkWhatPacketThisIs]),
       ifDo (\<lambda>w. numEq (code packet) (Integer 255) \<and> truthy (param packet ''249'')
                 \<and> truthy (param packet ''254''))
         (awaitAuthCode packet)]"

text \<open>The rest of the handler, when the fetch has given the auth code.\<close>

definition afterAuthCode :: "codes \<Rightarrow> env \<Rightarrow> inPacket \<Rightarrow> string \<Rightarrow> act" where
  "afterAuthCode k e packet authCode =
     block
      [updBot (\<lambda>b. b\<lparr>lastActorNr :=
          (case second (splitOn (toStringJS (param packet ''254'')) ''int32 '') of
             JStr s \<Rightarrow> NrString s
           | _ \<Rightarrow> NrUndefined)\<rparr>),
       sendJoinNotify k e,
       sendAuthToken k e authCode,
       ifDo (\<lambda>w. alreadyJoined (bot w)) ret,
       ifDo (\<lambda>w. showJoinMessageInChat (bot w)) (sendPlayerBodyPacket k e),
       updBot (\<lambda>b. b\<lparr>alreadyJoined := True\<rparr>)]"

text \<open>The wrapper that \<^verbatim>\<open>joinRoom\<close> puts around \<^verbatim>\<open>onmessage\<close> of a game socket that
  exists when it is called: after the handler, when \<^verbatim>\<open>alreadyJoined\<close> is set, the
  timeout is cleared and the promise resolved.\<close>

definition runWaiter :: "nat \<times> nat \<Rightarrow> world \<Rightarrow> world" where
  "runWaiter tp w =
     (if alreadyJoined (bot w) then settle (snd tp) Resolved (clearTimer (fst tp) w) else w)"

subsection \<open>joinRoom\<close>

definition generateAccount :: "env \<Rightarrow> act" where
  "generateAccount e w =
     (case randomAccount e of
        None \<Rightarrow> (w, Throw (TypeError ''Cannot read properties of null (reading 'username')''))
      | Some (u, p) \<Rightarrow>
          (w\<lparr>bot := (bot w)\<lparr>account :=
                Some \<lparr>username = u, password = p, hashedPassword = sha512 e p\<rparr>\<rparr>\<rparr>, Next))"

definition lobbyUrl :: string where
  "lobbyUrl = ''wss://game-ca-1.blayzegames.com:2053/?libversion=4.1.6.10&sid=30&app=''"

definition openLobbySocket :: act where
  "openLobbySocket w =
     (w\<lparr>sockets := sockets w @ [newSocket (JStr lobbyUrl) LobbyRole],
        bot := (bot w)\<lparr>lobbySocket := Some (length (sockets w))\<rparr>\<rparr>, Next)"

text \<open>
  The promise that \<^verbatim>\<open>joinRoom\<close> returns is number \<open>p\<close>. Its executor sets the timeout
  of 30000 ms that rejects it, and wraps \<^verbatim>\<open>onmessage\<close> of \<^verbatim>\<open>this.gameSocket\<close> when
  there is one at that moment.
\<close>

definition awaitJoin :: "nat \<Rightarrow> act" where
  "awaitJoin p w =
     (let t = length (timers w);
          w1 = fst (setTimer 30000 False (JoinTimeout p) w)
      in case gameSocket (bot w1) of
           None \<Rightarrow> (w1, Next)
         | Some g \<Rightarrow>
             if g < length (sockets w1)
             then (w1\<lparr>sockets := (sockets w1)[g := (sockets w1 ! g)
                        \<lparr>waiters := waiters (sockets w1 ! g) @ [(t, p)]\<rparr>]\<rparr>, Next)
             else (w1, Next))"

definition joinRoomBody :: "env \<Rightarrow> string \<Rightarrow> nat \<Rightarrow> act" where
  "joinRoomBody e roomName p =
     block
      [ifDo (\<lambda>w. account (bot w) = None) (generateAccount e),
       updBot (\<lambda>b. b\<lparr>gameRoomName := roomName, lastActorNr := plusOne (lastActorNr b)\<rparr>),
       openLobbySocket,
       awaitJoin p]"

text \<open>An exception in the body of the async function rejects its promise.\<close>

definition joinRoom :: "env \<Rightarrow> string \<Rightarrow> world \<Rightarrow> world" where
  "joinRoom e roomName w =
     (let p = length (joins w)
      in case joinRoomBody e roomName p (w\<lparr>joins := joins w @ [Pending]\<rparr>) of
           (w', Throw err) \<Rightarrow> settle p (Rejected err) w'
         | (w', _) \<Rightarrow> w')"

subsection \<open>The management interface\<close>

text \<open>
  The handlers of \<^verbatim>\<open>POST /api/bots/:botId/join-room\<close>, \<^verbatim>\<open>.../spawn\<close> and
  \<^verbatim>\<open>.../leave-room\<close> for a bot that exists; \<open>responses\<close> collects the status codes. An
  exception inside the \<^verbatim>\<open>try\<close> is answered with 404.
\<close>

definition respond :: "nat \<Rightarrow> world \<Rightarrow> world" where
  "respond status w = w\<lparr>responses := responses w @ [status]\<rparr>"

definition apiJoinRoom :: "env \<Rightarrow> string \<Rightarrow> world \<Rightarrow> world" where
  "apiJoinRoom e roomName w =
     (if roomName = [] \<or> trim roomName = [] then respond 400 w
      else if isInRoom (bot w) then respond 400 w
      else respond 200 (joinRoom e roomName w))"

definition apiSpawn :: "codes \<Rightarrow> env \<Rightarrow> world \<Rightarrow> world" where
  "apiSpawn k e w =
     (case ifDo (\<lambda>w. isInRoom (bot w)) (spawnPlayer k e) w of
        (w', Throw err) \<Rightarrow> respond 404 w'
      | (w', _) \<Rightarrow> respond 200 w')"

definition resetBot :: "bot \<Rightarrow> bot" where
  "resetBot b =
     b\<lparr>isInGame := False, isInRoom := False, alreadyJoined := False, gameRoomName := [],
       serverAddress := JStr [], players := []\<rparr>"

definition apiLeaveRoom :: "codes \<Rightarrow> world \<Rightarrow> world" where
  "apiLeaveRoom k w =
     (if \<not> isInRoom (bot w) \<and> \<not> isInGame (bot w) then respond 400 w
      else case block [ifDo (\<lambda>w. gameSocket (bot w) \<noteq> None) (leaveRoom k), updBot resetBot] w of
             (w', Throw err) \<Rightarrow> respond 404 w'
           | (w', _) \<Rightarrow> respond 200 w')"

subsection \<open>Events\<close>

datatype event =
    Opened nat
  | Message nat inPacket
  | Closed nat
  | AuthCode nat "jserror + string"
  | Fire nat
  | ApiJoinRoom string
  | ApiSpawn
  | ApiLeaveRoom

text \<open>An exception that leaves a handler is kept in \<open>faults\<close>; what the handler did
  before it stays done.\<close>

definition handle :: "act \<Rightarrow> world \<Rightarrow> world" where
  "handle a w = (case a w of (w', Throw err) \<Rightarrow> w'\<lparr>faults := faults w' @ [err]\<rparr> | (w', _) \<Rightarrow> w')"

definition setReadyState :: "nat \<Rightarrow> readyState \<Rightarrow> world \<Rightarrow> world" where
  "setReadyState i r w = w\<lparr>sockets := (sockets w)[i := (sockets w ! i)\<lparr>readyState := r\<rparr>]\<rparr>"

definition fire :: "codes \<Rightarrow> action \<Rightarrow> act" where
  "fire k a =
     (case a of
        JoinFromLobby \<Rightarrow> withBot (\<lambda>b. joinRoomFromLobby k (gameRoomName b))
      | PingTick g \<Rightarrow> sockSend g (Buffer (pingLoopPacket k))
      | StatusTick g \<Rightarrow> sockSend g (Buffer craftedPacket)
      | JoinTimeout p \<Rightarrow> doSettle p (Rejected (Error ''Connection timeout'')))"

text \<open>
  One event. A socket opens once, from connecting; messages arrive on a socket that is
  open or closing; a timer that is not repeating runs once; a fetch settles once.
\<close>

definition step :: "codes \<Rightarrow> env \<Rightarrow> event \<Rightarrow> world \<Rightarrow> world" where
  "step k e ev w =
     (case ev of
        Opened i \<Rightarrow>
          if i < length (sockets w) \<and> readyState (sockets w ! i) = CONNECTING
          then handle (case role (sockets w ! i) of
                         LobbyRole \<Rightarrow> lobbyOnOpen e
                       | GameRole \<Rightarrow> gameOnOpen e)
                 (setReadyState i OPEN w)
          else w
      | Message i packet \<Rightarrow>
          if i < length (sockets w)
             \<and> (readyState (sockets w ! i) = OPEN \<or> readyState (sockets w ! i) = CLOSING)
          then (case role (sockets w ! i) of
                  LobbyRole \<Rightarrow> handle (lobbyOnMessage k e packet) w
                | GameRole \<Rightarrow>
                    fold runWaiter (waiters (sockets w ! i)) (handle (gameOnMessage k e packet) w))
          else w
      | Closed i \<Rightarrow>
          if i < length (sockets w) then setReadyState i CLOSED w else w
      | AuthCode n r \<Rightarrow>
          if n < length (fetches w) \<and> snd (fetches w ! n)
          then (let packet = fst (fetches w ! n);
                    w1 = w\<lparr>fetches := (fetches w)[n := (packet, False)]\<rparr>
                in case r of
                     Inl err \<Rightarrow> handle (throw err) w1
                   | Inr authCode \<Rightarrow> handle (afterAuthCode k e packet authCode) w1)
          else w
      | Fire t \<Rightarrow>
          if t < length (timers w) \<and> active (timers w ! t)
          then handle (fire k (action (timers w ! t)))
                 (if repeating (timers w ! t) then w else clearTimer t w)
          else w
      | ApiJoinRoom roomName \<Rightarrow> apiJoinRoom e roomName w
      | ApiSpawn \<Rightarrow> apiSpawn k e w
      | ApiLeaveRoom \<Rightarrow> apiLeaveRoom k w)"

definition run :: "codes \<Rightarrow> (env \<times> event) list \<Rightarrow> world \<Rightarrow> world" where
  "run k evs w = fold (\<lambda>(e, ev). step k e ev) evs w"

subsection \<open>A concrete session\<close>

text \<open>
  For running the model: the codes of the Photon protocol that the client speaks (the
  sources themselves write 226 for the join and 253 for the raise-event operation),
  an environment, and the packets of one join as the reader would hand them to the
  handlers.
\<close>

definition photonCodes :: codes where
  "photonCodes =
     \<lparr>pcCache = Integer 247, pcActorList = Integer 252, pcGroup = Integer 240,
      pcReceiverGroup = Integer 246, pcEventForward = Integer 234, pcCode = Integer 244,
      pcData = Integer 245, opRaiseEvent = Integer 253, opAuthenticate = Integer 230,
      opJoinLobby = Integer 229, opJoinGame = Integer 226, opLeave = Integer 254,
      evAppStats = Integer 226, ptInitResponse = Integer 1, iopPing = Integer 1\<rparr>"

definition env0 :: env where
  "env0 =
     \<lparr>now = 1000, uuid = ''00000000-0000-4000-8000-000000000000'', clanTag = ''[AB]'',
      randomBinary = 1, randomRank = 42, randomAccount = Some (''bot'', ''secret''),
      sha512 = (\<lambda>s. ''hash'')\<rparr>"

definition botAccount :: account where
  "botAccount = \<lparr>username = ''bot'', password = ''secret'', hashedPassword = ''hash''\<rparr>"

definition freshBot :: bot where
  "freshBot = (newBot ''0123456789abcdef'' 0)\<lparr>account := Some botAccount\<rparr>"

definition freshWorld :: world where
  "freshWorld = newWorld freshBot"

definition initResponse :: inPacket where
  "initResponse = \<lparr>code = Integer 1, inParams = [], debugMessage = JUndefined\<rparr>"

definition lobbyAuthResponse :: inPacket where
  "lobbyAuthResponse =
     \<lparr>code = Integer 230,
      inParams = [(''221'', JStr ''token''), (''225'', JStr ''user-id''),
                  (''222'', JObj [(''Arena (#12345)'', JObj []), (''Lounge'', JObj [])])],
      debugMessage = JUndefined\<rparr>"

definition addressResponse :: inPacket where
  "addressResponse =
     \<lparr>code = Integer 226, inParams = [(''230'', JStr ''wss://game.example:2053'')],
      debugMessage = JUndefined\<rparr>"

definition gameAuthResponse :: inPacket where
  "gameAuthResponse = \<lparr>code = Integer 230, inParams = [], debugMessage = JUndefined\<rparr>"

definition occupant :: "string \<Rightarrow> int \<Rightarrow> string \<Rightarrow> jsval" where
  "occupant nm rk ratio =
     JObj [(''int8 255'', JStr nm), (''rank'', JObj [(''value'', JNum (Integer rk))]),
           (''kd'', JObj [(''value'', JNum (Dec ratio))])]"

definition joinResponse :: inPacket where
  "joinResponse =
     \<lparr>code = Integer 226,
      inParams = [(''249'', JObj [(''int32 1'', occupant ''Ann'' 42 ''1.5''),
                                 (''int32 2'', occupant ''Bob'' 7 ''0.8'')])],
      debugMessage = JUndefined\<rparr>"

definition actorTrigger :: inPacket where
  "actorTrigger =
     \<lparr>code = Integer 255,
      inParams = [(''249'', JObj [(''int8 255'', JStr ''[AB] bot'')]), (''254'', JStr ''int32 3'')],
      debugMessage = JUndefined\<rparr>"

text \<open>The events of the join, up to the first delivery of the trigger of event 255 and
  the auth code it waits for.\<close>

definition joinEvents :: "(env \<times> event) list" where
  "joinEvents =
     map (Pair env0)
      [ApiJoinRoom ''Arena (#12345)'', Opened 0, Message 0 initResponse,
       Message 0 lobbyAuthResponse, Fire 1, Message 0 addressResponse, Opened 1,
       Message 1 initResponse, Message 1 gameAuthResponse, Message 1 joinResponse,
       Message 1 actorTrigger, AuthCode 0 (Inr ''code'')]"

definition inRoomWorld :: world where
  "inRoomWorld = run photonCodes joinEvents freshWorld"

text \<open>A session whose lobby channel was told the address of a game server before any
  authenticate response, and whose game channel has just opened.\<close>

definition unauthenticatedWorld :: world where
  "unauthenticatedWorld =
     run photonCodes
       (map (Pair env0)
          [ApiJoinRoom ''Arena (#12345)'', Opened 0, Message 0 addressResponse, Opened 1])
       freshWorld"

text \<open>A join that is not told the address of a game server, up to its timeout; and the
  joined session after the leave request and the closing of its game channel.\<close>

definition timedOutWorld :: world where
  "timedOutWorld =
     run photonCodes
       (map (Pair env0)
          [ApiJoinRoom ''Arena (#12345)'', Opened 0, Message 0 initResponse,
           Message 0 lobbyAuthResponse, Fire 1, Fire 0])
       freshWorld"

definition leftWorld :: world where
  "leftWorld = run photonCodes (map (Pair env0) [ApiLeaveRoom, Closed 1]) inRoomWorld"

text \<open>The session when the lobby channel has been told the address of the game server
  and the game channel is still connecting.\<close>

definition handoffEvents :: "(env \<times> event) list" where
  "handoffEvents =
     map (Pair env0)
      [ApiJoinRoom ''Arena (#12345)'', Opened 0, Message 0 initResponse,
       Message 0 lobbyAuthResponse, Fire 1, Message 0 addressResponse]"

definition handoffWorld :: world where
  "handoffWorld = run photonCodes handoffEvents (newWorld freshBot)"

subsection \<open>Notions used in the properties\<close>

text \<open>A statement keeps a property of the state: it holds after the statement, however
  the statement ends, when it held before.\<close>

definition inv :: "(world \<Rightarrow> bool) \<Rightarrow> act \<Rightarrow> bool" where
  "inv I a \<longleftrightarrow> (\<forall>w. I w \<longrightarrow> I (fst (a w)))"

text \<open>
  The session of \<open>b'\<close> is not behind that of \<open>b\<close>: no flag that is set in \<open>b\<close> is
  cleared, the roster has only grown, and a token or server address that was recorded
  is still the same.
\<close>

definition notBehind :: "bot \<Rightarrow> bot \<Rightarrow> bool" where
  "notBehind b b' \<longleftrightarrow>
     (isInGame b \<longrightarrow> isInGame b') \<and> (isInRoom b \<longrightarrow> isInRoom b')
     \<and> (alreadyJoined b \<longrightarrow> alreadyJoined b') \<and> (authSent b \<longrightarrow> authSent b')
     \<and> (\<exists>ps. players b' = players b @ ps)
     \<and> (\<not> looseEqEmpty (authToken b) \<longrightarrow> authToken b' = authToken b)
     \<and> (\<not> looseEqEmpty (serverAddress b) \<longrightarrow> serverAddress b' = serverAddress b)"

text \<open>The events that come from the sockets, the timers and the fetches, as opposed to
  the calls of the management interface.\<close>

fun inbound :: "event \<Rightarrow> bool" where
  "inbound (ApiJoinRoom r) = False"
| "inbound ApiSpawn = False"
| "inbound ApiLeaveRoom = False"
| "inbound ev = True"

text \<open>
  The packet that gives the address of the game server is the event \<^verbatim>\<open>AppStats\<close> with
  parameter 230: the lobby handler connects to the game server on no other packet. An
  event brings no server address when it is not the arrival of such a packet.
\<close>

definition addressTrigger :: "codes \<Rightarrow> inPacket \<Rightarrow> bool" where
  "addressTrigger k packet \<longleftrightarrow> numEq (code packet) (evAppStats k) \<and> truthy (param packet ''230'')"

fun noAddress :: "codes \<Rightarrow> event \<Rightarrow> bool" where
  "noAddress k (Message i packet) = (\<not> addressTrigger k packet)"
| "noAddress k ev = True"

text \<open>
  What holds of the references in every state that the events produce: the bot's two
  socket fields refer to sockets with the handlers of their kind, a wrapper refers to
  a timeout and a promise that exist, and a timeout rejects a promise that exists.
  It depends on the handlers and wrappers of the sockets, on the kinds of the timers
  and on the number of promises only.
\<close>

definition sockShape :: "world \<Rightarrow> (role \<times> (nat \<times> nat) list) list" where
  "sockShape w = map (\<lambda>s. (role s, waiters s)) (sockets w)"

definition timerShape :: "world \<Rightarrow> (bool \<times> action) list" where
  "timerShape w = map (\<lambda>t. (repeating t, action t)) (timers w)"

definition wfShape ::
  "nat option \<Rightarrow> nat option \<Rightarrow> (role \<times> (nat \<times> nat) list) list \<Rightarrow> (bool \<times> action) list \<Rightarrow> nat \<Rightarrow> bool" where
  "wfShape l g ss ts n \<longleftrightarrow>
     (\<forall>i. l = Some i \<longrightarrow> i < length ss \<and> fst (ss ! i) = LobbyRole)
     \<and> (\<forall>i. g = Some i \<longrightarrow> i < length ss \<and> fst (ss ! i) = GameRole)
     \<and> (\<forall>s \<in> set ss. \<forall>tp \<in> set (snd s).
           fst tp < length ts \<and> \<not> fst (ts ! fst tp) \<and> snd tp < n)
     \<and> (\<forall>t \<in> set ts. \<forall>p. snd t = JoinTimeout p \<longrightarrow> p < n)"

definition wf :: "world \<Rightarrow> bool" where
  "wf w \<longleftrightarrow>
     wfShape (lobbySocket (bot w)) (gameSocket (bot w)) (sockShape w) (timerShape w)
       (length (joins w))"

text \<open>
  A property of the state is \<open>benign\<close> when the statements keep it that only send,
  change fields of the bot, start a timer other than the timeout of a join, record a
  waiting handler or an exception, or open a socket.
\<close>

definition benign :: "(world \<Rightarrow> bool) \<Rightarrow> bool" where
  "benign I \<longleftrightarrow>
     (\<forall>f. inv I (updBot f)) \<and> (\<forall>i f. inv I (sockSend i f))
     \<and> (\<forall>ms rep a. (\<forall>p. a \<noteq> JoinTimeout p) \<longrightarrow> inv I (setTimer ms rep a))
     \<and> (\<forall>p. inv I (awaitAuthCode p)) \<and> inv I connectToGameServer \<and> inv I openLobbySocket
     \<and> (\<forall>w es. I w \<longrightarrow> I (w\<lparr>faults := es\<rparr>)) \<and> (\<forall>w fs. I w \<longrightarrow> I (w\<lparr>fetches := fs\<rparr>))
     \<and> (\<forall>w rs. I w \<longrightarrow> I (w\<lparr>responses := rs\<rparr>))"

definition hasReadyState :: "nat \<Rightarrow> readyState \<Rightarrow> world \<Rightarrow> bool" where
  "hasReadyState i r w \<longleftrightarrow> i < length (sockets w) \<and> readyState (sockets w ! i) = r"

definition hasTimer :: "nat \<Rightarrow> timer \<Rightarrow> world \<Rightarrow> bool" where
  "hasTimer t tm w \<longleftrightarrow> t < length (timers w) \<and> timers w ! t = tm"

text \<open>
  Promise \<open>p\<close> is pending, timer \<open>t\<close> is its timeout of 30000 ms and the only one that
  rejects it, and no wrapper of a socket resolves it or clears the timer.
\<close>

definition pendingJoin :: "nat \<Rightarrow> nat \<Rightarrow> world \<Rightarrow> bool" where
  "pendingJoin p t w \<longleftrightarrow>
     p < length (joins w) \<and> joins w ! p = Pending
     \<and> t < length (timers w)
     \<and> timers w ! t = \<lparr>delay = 30000, repeating = False, action = JoinTimeout p, active = True\<rparr>
     \<and> (\<forall>s \<in> set (sockets w). \<forall>tp \<in> set (waiters s). fst tp \<noteq> t \<and> snd tp \<noteq> p)
     \<and> (\<forall>t' < length (timers w). t' \<noteq> t \<longrightarrow> action (timers w ! t') \<noteq> JoinTimeout p)"

section \<open>The value codec\<close>

text \<open>
  Modelled from the spec: the value codec. \<^verbatim>\<open>PhotonClient.js\<close> requires
  \<^verbatim>\<open>./protocol_reader/ProtocolReader\<close> and \<^verbatim>\<open>./PhotonUtils/PhotonPacketBuilder\<close>, and neither
  file is among the sources; only their callers are. The definitions of this section
  follow section 4.1 of the specification: a one-byte type tag and a payload of the
  type, big-endian scalars, counts and lengths in front of their elements, and a decoder
  that tracks its depth and bounds every declared count.
\<close>

type_synonym bytes = "8 word list"

subsection \<open>Values\<close>

text \<open>Modelled from the spec: the types of the values, one tag for each.\<close>

datatype tag =
  TNull | TBoolean | TByte | TShort | TInteger | TLong | TFloat | TDouble | TString
  | TByteArray | TArray | TObjectArray | TMap | TVector

text \<open>
  Modelled from the spec: the tagged union of section 3. A float is its 32 bits and a
  double its 64 bits, so that equality of values is equality bit by bit, also for NaN
  and the infinities. A string is the sequence of its characters (code points).
\<close>

datatype Value =
  VNull
  | VBoolean bool
  | VByte "8 word"
  | VShort "16 word"
  | VInteger "32 word"
  | VLong "64 word"
  | VFloat "32 word"
  | VDouble "64 word"
  | VString "nat list"
  | VByteArray bytes
  | VArray tag "Value list"
  | VObjectArray "Value list"
  | VMap "(Value \<times> Value) list"
  | VVector "32 word" "32 word" "32 word"

fun tagOf :: "Value \<Rightarrow> tag" where
  "tagOf VNull = TNull"
| "tagOf (VBoolean b) = TBoolean"
| "tagOf (VByte b) = TByte"
| "tagOf (VShort w) = TShort"
| "tagOf (VInteger w) = TInteger"
| "tagOf (VLong w) = TLong"
| "tagOf (VFloat w) = TFloat"
| "tagOf (VDouble w) = TDouble"
| "tagOf (VString cs) = TString"
| "tagOf (VByteArray bs) = TByteArray"
| "tagOf (VArray t vs) = TArray"
| "tagOf (VObjectArray vs) = TObjectArray"
| "tagOf (VMap kvs) = TMap"
| "tagOf (VVector x y z) = TVector"

text \<open>
  Modelled from the spec: the bytes of the tags. The specification does not give their
  values; the model takes fourteen different bytes, and nothing that is proved depends
  on which.
\<close>

fun tagByte :: "tag \<Rightarrow> 8 word" where
  "tagByte TNull = 42"
| "tagByte TBoolean = 111"
| "tagByte TByte = 98"
| "tagByte TShort = 107"
| "tagByte TInteger = 105"
| "tagByte TLong = 108"
| "tagByte TFloat = 102"
| "tagByte TDouble = 100"
| "tagByte TString = 115"
| "tagByte TByteArray = 120"
| "tagByte TArray = 121"
| "tagByte TObjectArray = 122"
| "tagByte TMap = 104"
| "tagByte TVector = 86"

text \<open>Modelled from the spec: the tag that a byte stands for; any other byte is an
  illegal tag.\<close>

definition byteTag :: "8 word \<Rightarrow> tag option" where
  "byteTag b =
     (if b = 42 then Some TNull else if b = 111 then Some TBoolean
      else if b = 98 then Some TByte else if b = 107 then Some TShort
      else if b = 105 then Some TInteger else if b = 108 then Some TLong
      else if b = 102 then Some TFloat else if b = 100 then Some TDouble
      else if b = 115 then Some TString else if b = 120 then Some TByteArray
      else if b = 121 then Some TArray else if b = 122 then Some TObjectArray
      else if b = 104 then Some TMap else if b = 86 then Some TVector
      else None)"

text \<open>Modelled from the spec: the element types of a homogeneous array, which are
  integers, strings, or arrays.\<close>

definition elementTag :: "tag \<Rightarrow> bool" where
  "elementTag t \<longleftrightarrow> t = TInteger \<or> t = TString \<or> t = TArray"

subsection \<open>Encoding\<close>

text \<open>
  Modelled from the spec: a number in \<open>k\<close> bytes, most significant byte first. What
  does not fit in \<open>k\<close> bytes loses its upper part, as the write of a field of fixed
  width does.
\<close>

primrec be :: "nat \<Rightarrow> nat \<Rightarrow> bytes" where
  "be 0 n = []"
| "be (Suc k) n = be k (n div 256) @ [of_nat n]"

text \<open>Modelled from the spec: the UTF-8 bytes of a character.\<close>

definition utf8 :: "nat \<Rightarrow> bytes" where
  "utf8 c =
     (if c < 0x80 then [of_nat c]
      else if c < 0x800 then [of_nat (0xC0 + c div 64), of_nat (0x80 + c mod 64)]
      else if c < 0x10000
      then [of_nat (0xE0 + c div 4096), of_nat (0x80 + c div 64 mod 64), of_nat (0x80 + c mod 64)]
      else [of_nat (0xF0 + c div 262144), of_nat (0x80 + c div 4096 mod 64),
            of_nat (0x80 + c div 64 mod 64), of_nat (0x80 + c mod 64)])"

text \<open>
  Modelled from the spec: the payload of a value, that is its encoding without the
  leading tag. The length of a string counts its characters. The elements of a
  homogeneous array are written without their tags, after the tag of their type and
  their count; those of an object array and the keys and values of a map are written
  with their tags.
\<close>

fun payload :: "Value \<Rightarrow> bytes" where
  "payload VNull = []"
| "payload (VBoolean b) = [if b then 1 else 0]"
| "payload (VByte b) = [b]"
| "payload (VShort w) = be 2 (unat w)"
| "payload (VInteger w) = be 4 (unat w)"
| "payload (VLong w) = be 8 (unat w)"
| "payload (VFloat w) = be 4 (unat w)"
| "payload (VDouble w) = be 8 (unat w)"
| "payload (VString cs) = be 2 (length cs) @ concat (map utf8 cs)"
| "payload (VByteArray bs) = be 4 (length bs) @ bs"
| "payload (VArray t vs) = tagByte t # be 2 (length vs) @ concat (map payload vs)"
| "payload (VObjectArray vs) =
     be 2 (length vs) @ concat (map (\<lambda>v. tagByte (tagOf v) # payload v) vs)"
| "payload (VMap kvs) =
     be 2 (length kvs)
     @ concat (map (\<lambda>(k, v). (tagByte (tagOf k) # payload k) @ (tagByte (tagOf v) # payload v)) kvs)"
| "payload (VVector x y z) = be 4 (unat x) @ be 4 (unat y) @ be 4 (unat z)"

text \<open>Modelled from the spec: \<^verbatim>\<open>encode(Value) -> bytes\<close>, the tag and then the payload.\<close>

definition encode :: "Value \<Rightarrow> bytes" where
  "encode v = tagByte (tagOf v) # payload v"

text \<open>
  Modelled from the spec: the values the encoder can produce. Every length and count
  fits the field the format gives it, a string is made of Unicode scalar values, and
  the elements of a homogeneous array are of its element type, which is one of the
  three the format has.
\<close>

definition scalarValue :: "nat \<Rightarrow> bool" where
  "scalarValue c \<longleftrightarrow> c < 0xD800 \<or> (0xE000 \<le> c \<and> c < 0x110000)"

fun encodable :: "Value \<Rightarrow> bool" where
  "encodable (VString cs) \<longleftrightarrow> length cs < 65536 \<and> (\<forall>c \<in> set cs. scalarValue c)"
| "encodable (VByteArray bs) \<longleftrightarrow> length bs < 4294967296"
| "encodable (VArray t vs) \<longleftrightarrow>
     elementTag t \<and> length vs < 65536 \<and> (\<forall>v \<in> set vs. tagOf v = t \<and> encodable v)"
| "encodable (VObjectArray vs) \<longleftrightarrow> length vs < 65536 \<and> (\<forall>v \<in> set vs. encodable v)"
| "encodable (VMap kvs) \<longleftrightarrow>
     length kvs < 65536 \<and> (\<forall>kv \<in> set kvs. encodable (fst kv) \<and> encodable (snd kv))"
| "encodable v \<longleftrightarrow> True"

subsection \<open>Decoding\<close>

text \<open>Modelled from the spec: the kinds of \<^verbatim>\<open>DecodeError\<close>, which are a truncated buffer, an
  illegal type tag, malformed text, and a depth or a count above its limit.\<close>

datatype decodeError = Truncated | IllegalTag | MalformedText | DepthExceeded | CountExceeded

type_synonym 'a decoder = "bytes \<Rightarrow> decodeError + ('a \<times> bytes)"

text \<open>Modelled from the spec: the limits of the decoder, with the values the
  specification gives as examples.\<close>

definition maxDepth :: nat where
  "maxDepth = 32"

definition maxCount :: nat where
  "maxCount = 10000"

text \<open>Modelled from the spec: the number that bytes give, most significant byte first.\<close>

definition unbe :: "bytes \<Rightarrow> nat" where
  "unbe bs = foldl (\<lambda>a b. a * 256 + unat b) 0 bs"

text \<open>Modelled from the spec: a field of \<open>k\<close> bytes; a buffer that ends before the field
  does is an error.\<close>

definition fieldOf :: "nat \<Rightarrow> nat decoder" where
  "fieldOf k bs = (if length bs < k then Inl Truncated else Inr (unbe (take k bs), drop k bs))"

definition decoded :: "('a \<Rightarrow> 'b) \<Rightarrow> 'a decoder \<Rightarrow> 'b decoder" where
  "decoded f d bs = (case d bs of Inl e \<Rightarrow> Inl e | Inr (x, rest) \<Rightarrow> Inr (f x, rest))"

text \<open>Modelled from the spec: \<open>n\<close> elements, one after another, and a key followed by its
  value.\<close>

primrec repeated :: "nat \<Rightarrow> 'a decoder \<Rightarrow> ('a list) decoder" where
  "repeated 0 d bs = Inr ([], bs)"
| "repeated (Suc n) d bs =
     (case d bs of
        Inl e \<Rightarrow> Inl e
      | Inr (x, rest) \<Rightarrow> decoded (\<lambda>xs. x # xs) (repeated n d) rest)"

definition paired :: "'a decoder \<Rightarrow> ('a \<times> 'a) decoder" where
  "paired d bs =
     (case d bs of
        Inl e \<Rightarrow> Inl e
      | Inr (x, rest) \<Rightarrow> decoded (\<lambda>y. (x, y)) d rest)"

text \<open>Modelled from the spec: a character of UTF-8 text. Bytes that are not the UTF-8
  form of a Unicode scalar value are malformed text.\<close>

primrec continuation :: "nat \<Rightarrow> nat \<Rightarrow> nat decoder" where
  "continuation 0 acc bs = Inr (acc, bs)"
| "continuation (Suc k) acc bs =
     (case bs of
        [] \<Rightarrow> Inl Truncated
      | b # rest \<Rightarrow>
          if 0x80 \<le> unat b \<and> unat b < 0xC0
          then continuation k (acc * 64 + (unat b - 0x80)) rest
          else Inl MalformedText)"

definition checked :: "(nat \<Rightarrow> bool) \<Rightarrow> nat decoder \<Rightarrow> nat decoder" where
  "checked ok d bs =
     (case d bs of
        Inl e \<Rightarrow> Inl e
      | Inr (c, rest) \<Rightarrow> if ok c then Inr (c, rest) else Inl MalformedText)"

definition character :: "nat decoder" where
  "character bs =
     (case bs of
        [] \<Rightarrow> Inl Truncated
      | b # rest \<Rightarrow>
          if unat b < 0x80 then Inr (unat b, rest)
          else if unat b < 0xC0 then Inl MalformedText
          else if unat b < 0xE0
          then checked (\<lambda>c. 0x80 \<le> c) (continuation 1 (unat b - 0xC0)) rest
          else if unat b < 0xF0
          then checked (\<lambda>c. 0x800 \<le> c \<and> scalarValue c) (continuation 2 (unat b - 0xE0)) rest
          else if unat b < 0xF8
          then checked (\<lambda>c. 0x10000 \<le> c \<and> scalarValue c) (continuation 3 (unat b - 0xF0)) rest
          else Inl MalformedText)"

text \<open>
  Modelled from the spec: a declared count in two bytes. A count above the maximum is
  an error whatever the buffer holds, and so is a count that the rest of the buffer
  cannot supply (an element takes at least one byte).
\<close>

definition count :: "nat decoder" where
  "count bs =
     (case fieldOf 2 bs of
        Inl e \<Rightarrow> Inl e
      | Inr (n, rest) \<Rightarrow>
          if maxCount < n then Inl CountExceeded
          else if length rest < n then Inl Truncated
          else Inr (n, rest))"

text \<open>Modelled from the spec: the payloads that hold no other value. A length that the
  rest of the buffer cannot supply is an error.\<close>

definition flat :: "tag \<Rightarrow> Value decoder" where
  "flat t bs =
     (case t of
        TNull \<Rightarrow> Inr (VNull, bs)
      | TBoolean \<Rightarrow> decoded (\<lambda>n. VBoolean (n \<noteq> 0)) (fieldOf 1) bs
      | TByte \<Rightarrow> decoded (\<lambda>n. VByte (of_nat n)) (fieldOf 1) bs
      | TShort \<Rightarrow> decoded (\<lambda>n. VShort (of_nat n)) (fieldOf 2) bs
      | TInteger \<Rightarrow> decoded (\<lambda>n. VInteger (of_nat n)) (fieldOf 4) bs
      | TLong \<Rightarrow> decoded (\<lambda>n. VLong (of_nat n)) (fieldOf 8) bs
      | TFloat \<Rightarrow> decoded (\<lambda>n. VFloat (of_nat n)) (fieldOf 4) bs
      | TDouble \<Rightarrow> decoded (\<lambda>n. VDouble (of_nat n)) (fieldOf 8) bs
      | TString \<Rightarrow>
          (case fieldOf 2 bs of
             Inl e \<Rightarrow> Inl e
           | Inr (n, rest) \<Rightarrow>
               if length rest < n then Inl Truncated
               else decoded VString (repeated n character) rest)
      | TByteArray \<Rightarrow>
          (case fieldOf 4 bs of
             Inl e \<Rightarrow> Inl e
           | Inr (n, rest) \<Rightarrow>
               if length rest < n then Inl Truncated
               else Inr (VByteArray (take n rest), drop n rest))
      | TVector \<Rightarrow>
          (case repeated 3 (fieldOf 4) bs of
             Inl e \<Rightarrow> Inl e
           | Inr (ns, rest) \<Rightarrow>
               Inr (VVector (of_nat (ns ! 0)) (of_nat (ns ! 1)) (of_nat (ns ! 2)), rest))
      | _ \<Rightarrow> Inl IllegalTag)"

text \<open>Modelled from the spec: a value with its tag in front, given the decoder of the
  payloads.\<close>

definition tagged :: "(tag \<Rightarrow> Value decoder) \<Rightarrow> Value decoder" where
  "tagged d bs =
     (case bs of
        [] \<Rightarrow> Inl Truncated
      | b # rest \<Rightarrow> (case byteTag b of None \<Rightarrow> Inl IllegalTag | Some t \<Rightarrow> d t rest))"

text \<open>Modelled from the spec: the three containers, given the decoder of the payloads one
  level further in.\<close>

definition container :: "(tag \<Rightarrow> Value decoder) \<Rightarrow> tag \<Rightarrow> Value decoder" where
  "container d t bs =
     (case t of
        TArray \<Rightarrow>
          (case bs of
             [] \<Rightarrow> Inl Truncated
           | b # rest \<Rightarrow>
               (case byteTag b of
                  None \<Rightarrow> Inl IllegalTag
                | Some et \<Rightarrow>
                    if elementTag et
                    then (case count rest of
                            Inl e \<Rightarrow> Inl e
                          | Inr (n, rest') \<Rightarrow> decoded (VArray et) (repeated n (d et)) rest')
                    else Inl IllegalTag))
      | TObjectArray \<Rightarrow>
          (case count bs of
             Inl e \<Rightarrow> Inl e
           | Inr (n, rest) \<Rightarrow> decoded VObjectArray (repeated n (tagged d)) rest)
      | TMap \<Rightarrow>
          (case count bs of
             Inl e \<Rightarrow> Inl e
           | Inr (n, rest) \<Rightarrow> decoded VMap (repeated n (paired (tagged d))) rest)
      | _ \<Rightarrow> flat t bs)"

definition isContainer :: "tag \<Rightarrow> bool" where
  "isContainer t \<longleftrightarrow> t = TArray \<or> t = TObjectArray \<or> t = TMap"

text \<open>
  Modelled from the spec: the payload of a value of type \<open>t\<close>, with \<open>r\<close> levels of
  nesting still allowed: the depth is tracked as what is left of the maximum, and a
  container met when nothing is left is an error.
\<close>

primrec decodePayload :: "nat \<Rightarrow> tag \<Rightarrow> Value decoder" where
  "decodePayload 0 t bs = (if isContainer t then Inl DepthExceeded else flat t bs)"
| "decodePayload (Suc r) t bs = container (decodePayload r) t bs"

text \<open>Modelled from the spec: \<^verbatim>\<open>decode(bytes) -> (Value, bytesConsumed)\<close>.\<close>

definition decode :: "bytes \<Rightarrow> decodeError + (Value \<times> nat)" where
  "decode bs =
     (case tagged (decodePayload maxDepth) bs of
        Inl e \<Rightarrow> Inl e
      | Inr (v, rest) \<Rightarrow> Inr (v, length bs - length rest))"

subsection \<open>Depth and counts of a value\<close>

text \<open>The number of containers around the innermost value.\<close>

fun depth :: "Value \<Rightarrow> nat" where
  "depth (VArray t vs) = Suc (foldr max (map depth vs) 0)"
| "depth (VObjectArray vs) = Suc (foldr max (map depth vs) 0)"
| "depth (VMap kvs) = Suc (foldr max (map (\<lambda>(k, v). max (depth k) (depth v)) kvs) 0)"
| "depth v = 0"

text \<open>No container of the value has more elements or pairs than the maximum.\<close>

fun counted :: "Value \<Rightarrow> bool" where
  "counted (VArray t vs) \<longleftrightarrow> length vs \<le> maxCount \<and> (\<forall>v \<in> set vs. counted v)"
| "counted (VObjectArray vs) \<longleftrightarrow> length vs \<le> maxCount \<and> (\<forall>v \<in> set vs. counted v)"
| "counted (VMap kvs) \<longleftrightarrow>
     length kvs \<le> maxCount \<and> (\<forall>kv \<in> set kvs. counted (fst kv) \<and> counted (snd kv))"
| "counted v \<longleftrightarrow> True"

text \<open>The value is within \<open>r\<close> levels of nesting and within the maximal count.\<close>

definition fits :: "nat \<Rightarrow> Value \<Rightarrow> bool" where
  "fits r v \<longleftrightarrow> depth v \<le> r \<and> counted v"

text \<open>
  The hashtables that \<^verbatim>\<open>sendEdgeCasePacket(3)\<close> of \<^verbatim>\<open>PhotonClient.js\<close> builds and sends, one
  inside the other under the keys \<^verbatim>\<open>byte(i)\<close>, \<^verbatim>\<open>byte(i + 1)\<close>, ...: \<open>nestedTable 50 0\<close> is
  its \<^verbatim>\<open>nestedData\<close>.
\<close>

primrec nestedTable :: "nat \<Rightarrow> nat \<Rightarrow> Value" where
  "nestedTable 0 i = VMap []"
| "nestedTable (Suc n) i = VMap [(VByte (of_nat i), nestedTable n (Suc i))]"




section \<open>The room-id filter\<close>

lemma rxrep_chars:
  assumes m: "\<And>s r. r \<in> set (m s) \<longleftrightarrow> (\<exists>x. s = x # r \<and> P x)"
  shows "r \<in> set (rxrep m lo hi s) \<longleftrightarrow>
     (\<exists>ds. s = ds @ r \<and> lo \<le> length ds \<and> length ds \<le> hi \<and> (\<forall>d \<in> set ds. P d))"
proof (induction hi arbitrary: lo s)
  case 0
  then show ?case by auto
next
  case (Suc hi)
  show ?case
  proof
    assume "r \<in> set (rxrep m lo (Suc hi) s)"
    then consider (more) t where "t \<in> set (m s)" "r \<in> set (rxrep m (lo - 1) hi t)"
      | (stop) "lo = 0" "r = s"
      by (auto split: if_splits)
    then show "\<exists>ds. s = ds @ r \<and> lo \<le> length ds \<and> length ds \<le> Suc hi \<and> (\<forall>d \<in> set ds. P d)"
    proof cases
      case more
      from more(1) m obtain x where x: "s = x # t" "P x"
        by blast
      from more(2) Suc.IH obtain ds where "t = ds @ r" "lo - 1 \<le> length ds" "length ds \<le> hi" "\<forall>d \<in> set ds. P d"
        by blast
      with x show ?thesis
        by (intro exI[of _ "x # ds"]) auto
    next
      case stop
      then show ?thesis by (intro exI[of _ "[]"]) simp
    qed
  next
    assume "\<exists>ds. s = ds @ r \<and> lo \<le> length ds \<and> length ds \<le> Suc hi \<and> (\<forall>d \<in> set ds. P d)"
    then obtain ds where ds: "s = ds @ r" "lo \<le> length ds" "length ds \<le> Suc hi" "\<forall>d \<in> set ds. P d"
      by blast
    show "r \<in> set (rxrep m lo (Suc hi) s)"
    proof (cases ds)
      case Nil
      with ds show ?thesis by simp
    next
      case (Cons x xs)
      with ds m have "xs @ r \<in> set (m s)" by simp
      moreover from Cons ds have "r \<in> set (rxrep m (lo - 1) hi (xs @ r))"
        unfolding Suc.IH by auto
      ultimately show ?thesis by auto
    qed
  qed
qed

lemma rxmatch_digits: "r \<in> set (rxmatch (Class digits) s) \<longleftrightarrow> (\<exists>x. s = x # r \<and> isDigit x)"
  by (cases s) (auto simp: isDigit_def)

lemma rxmatch_Lit: "r \<in> set (rxmatch (Lit c) s) \<longleftrightarrow> s = c # r"
  by (cases s) auto

lemma rxmatch_Seq:
  "r \<in> set (rxmatch (Seq a b) s) \<longleftrightarrow> (\<exists>t. t \<in> set (rxmatch a s) \<and> r \<in> set (rxmatch b t))"
  by auto

lemma rxmatch_Rep_Digit:
  "r \<in> set (rxmatch (Rep lo hi (Class digits)) s) \<longleftrightarrow>
     (\<exists>ds. s = ds @ r \<and> lo \<le> length ds \<and> length ds \<le> hi \<and> (\<forall>d \<in> set ds. isDigit d))"
  unfolding rxmatch.simps(5) by (rule rxrep_chars) (rule rxmatch_digits)

lemma rxmatch_roomIdPattern:
  "rxmatch roomIdPattern s \<noteq> [] \<longleftrightarrow>
     (\<exists>ds post. s = ''(#'' @ ds @ '')'' @ post \<and>
        4 \<le> length ds \<and> length ds \<le> 6 \<and> (\<forall>d \<in> set ds. isDigit d))"
proof -
  have "rxmatch roomIdPattern s \<noteq> [] \<longleftrightarrow> (\<exists>r. r \<in> set (rxmatch roomIdPattern s))"
    by (cases "rxmatch roomIdPattern s") auto
  also have "\<dots> \<longleftrightarrow> (\<exists>ds post. s = ''(#'' @ ds @ '')'' @ post \<and>
        4 \<le> length ds \<and> length ds \<le> 6 \<and> (\<forall>d \<in> set ds. isDigit d))"
    unfolding roomIdPattern_def rxmatch_Seq rxmatch_Lit rxmatch_Rep_Digit
    by auto
  finally show ?thesis .
qed

lemma rxtest_roomIdPattern: "rxtest roomIdPattern key \<longleftrightarrow> hasRoomId key"
proof (induction key)
  case Nil
  show ?case
    unfolding hasRoomId_def by (simp add: rxmatch_roomIdPattern)
next
  case (Cons c cs)
  have "hasRoomId (c # cs) \<longleftrightarrow> rxmatch roomIdPattern (c # cs) \<noteq> [] \<or> hasRoomId cs"
  proof
    assume "hasRoomId (c # cs)"
    then obtain pre ds post where k: "c # cs = pre @ ''(#'' @ ds @ '')'' @ post"
      "4 \<le> length ds" "length ds \<le> 6" "\<forall>d \<in> set ds. isDigit d"
      unfolding hasRoomId_def by blast
    show "rxmatch roomIdPattern (c # cs) \<noteq> [] \<or> hasRoomId cs"
    proof (cases pre)
      case Nil
      with k show ?thesis unfolding rxmatch_roomIdPattern by auto
    next
      case (Cons p ps)
      with k have "cs = ps @ ''(#'' @ ds @ '')'' @ post" by simp
      with k show ?thesis unfolding hasRoomId_def by blast
    qed
  next
    assume "rxmatch roomIdPattern (c # cs) \<noteq> [] \<or> hasRoomId cs"
    then show "hasRoomId (c # cs)"
    proof
      assume "rxmatch roomIdPattern (c # cs) \<noteq> []"
      then obtain ds post where "c # cs = [] @ ''(#'' @ ds @ '')'' @ post"
        "4 \<le> length ds" "length ds \<le> 6" "\<forall>d \<in> set ds. isDigit d"
        unfolding rxmatch_roomIdPattern by auto
      then show ?thesis unfolding hasRoomId_def by blast
    next
      assume "hasRoomId cs"
      then obtain pre ds post where "cs = pre @ ''(#'' @ ds @ '')'' @ post"
        "4 \<le> length ds" "length ds \<le> 6" "\<forall>d \<in> set ds. isDigit d"
        unfolding hasRoomId_def by blast
      then have "c # cs = (c # pre) @ ''(#'' @ ds @ '')'' @ post" by simp
      with \<open>4 \<le> length ds\<close> \<open>length ds \<le> 6\<close> \<open>\<forall>d \<in> set ds. isDigit d\<close>
      show ?thesis unfolding hasRoomId_def by blast
    qed
  qed
  with Cons show ?case by simp
qed

text \<open>
  C9. The room-id filter keeps exactly the keys that contain an opening parenthesis, a
  hash sign, four to six digits and a closing parenthesis, in their order; from the
  listing \<^verbatim>\<open>"Arena (#12345)", "Lounge"\<close> only \<^verbatim>\<open>"Arena (#12345)"\<close> passes.
\<close>

theorem filterRoomsWithIdOnly_keeps_room_ids:
  "filterRoomsWithIdOnly roomKeys = filter hasRoomId roomKeys
   \<and> filterRoomsWithIdOnly [''Arena (#12345)'', ''Lounge''] = [''Arena (#12345)'']"
proof
  show "filterRoomsWithIdOnly roomKeys = filter hasRoomId roomKeys"
  proof -
    have "rxtest roomIdPattern = hasRoomId"
      by (rule ext) (rule rxtest_roomIdPattern)
    then show ?thesis unfolding filterRoomsWithIdOnly_def by simp
  qed
  show "filterRoomsWithIdOnly [''Arena (#12345)'', ''Lounge''] = [''Arena (#12345)'']"
    by code_simp
qed

theorem filterRoomsWithIdOnly_keeps_room_ids_witness:
  "hasRoomId ''Arena (#12345)'' \<and> \<not> hasRoomId ''Lounge''
   \<and> filterRoomsWithIdOnly [''Lobby (#0042)'', ''(#123)'', ''Arena (#12345)''] = [''Lobby (#0042)'', ''Arena (#12345)'']"
proof -
  have "filter hasRoomId [''Arena (#12345)'', ''Lounge''] = [''Arena (#12345)'']"
    using filterRoomsWithIdOnly_keeps_room_ids[of "[''Arena (#12345)'', ''Lounge'']"]
    by (elim conjE) (simp only:)
  then have "hasRoomId ''Arena (#12345)'' \<and> \<not> hasRoomId ''Lounge''"
    by (cases "hasRoomId ''Arena (#12345)''"; cases "hasRoomId ''Lounge''") simp_all
  moreover have "filterRoomsWithIdOnly [''Lobby (#0042)'', ''(#123)'', ''Arena (#12345)'']
      = [''Lobby (#0042)'', ''Arena (#12345)'']"
    by code_simp
  ultimately show ?thesis by simp
qed

section \<open>Return values of the client's send operations\<close>

lemma params_fold_addParam:
  "fold (\<lambda>(key, v) p. addParam key v p) ps p0 = p0\<lparr>params := params p0 @ ps\<rparr>"
  by (induction ps arbitrary: p0) (auto simp: addParam_def)

lemma SendOperation_outcome:
  "SendOperation send operationCode parameters sendOptions c =
     (case send (socket c) (Buffer \<lparr>opCode = operationCode, params = parameters\<rparr>) of
        Inl e \<Rightarrow> Inl e
      | Inr s' \<Rightarrow> Inr (True, c\<lparr>socket := s'\<rparr>))"
  by (simp add: SendOperation_def params_fold_addParam createRequest_def)

lemma SendOperation_sentOnce:
  "socket c = sock \<Longrightarrow> sentOnce send op sock (SendOperation send op (opParameters c) so c)"
  unfolding sentOnce_def SendOperation_outcome
  by (rule exI[of _ "opParameters c"]) (simp split: sum.split)


lemma raiseEventSend_sentOnce:
  "socket c = sock \<Longrightarrow> sentOnce send (opRaiseEvent k) sock (raiseEventSend send k ev content so c)"
  unfolding raiseEventSend_def Let_def
  by (rule SendOperation_sentOnce) simp

lemma socket_setters:
  "socket (setCache k opts c) = socket c"
  "socket (setActorList k actors c) = socket c"
  "socket (setReceivers k opts c) = socket c"
  "socket (setForward k opts c) = socket c"
  by (simp_all add: setCache_def setActorList_def setReceivers_def setForward_def split: option.split)

lemma OpRaiseEvent_sentOnce:
  "sentOnce send (opRaiseEvent k) (socket c) (OpRaiseEvent send k ev content opts so c)"
proof (cases opts)
  case None
  then show ?thesis
    unfolding OpRaiseEvent_def Let_def by (simp add: raiseEventSend_sentOnce)
next
  case (Some o1)
  show ?thesis
    unfolding OpRaiseEvent_def Let_def Some option.case
    by (auto intro!: SendOperation_sentOnce raiseEventSend_sentOnce simp: socket_setters split: option.split)
qed

text \<open>
  C10. \<^verbatim>\<open>SendOperation\<close> and \<^verbatim>\<open>OpRaiseEvent\<close> hand one packet to the socket and
  return \<^verbatim>\<open>true\<close> whatever the socket did with it: whenever the call returns at
  all (the socket's \<^verbatim>\<open>send\<close> did not throw), the value is \<^verbatim>\<open>true\<close>.
\<close>

theorem send_result_always_true:
  "SendOperation send operationCode parameters sendOptions c =
     (case send (socket c) (Buffer \<lparr>opCode = operationCode, params = parameters\<rparr>) of
        Inl e \<Rightarrow> Inl e
      | Inr s' \<Rightarrow> Inr (True, c\<lparr>socket := s'\<rparr>))
   \<and> (\<exists>ps. OpRaiseEvent send k eventCode customEventContent raiseEventOptions sendOptions c =
        (case send (socket c) (Buffer \<lparr>opCode = opRaiseEvent k, params = ps\<rparr>) of
           Inl e \<Rightarrow> Inl e
         | Inr s' \<Rightarrow> Inr (True, \<lparr>opParameters = ps, socket = s'\<rparr>)))"
  using SendOperation_outcome[of send operationCode parameters sendOptions c]
    OpRaiseEvent_sentOnce[of send k c eventCode customEventContent raiseEventOptions sendOptions]
  unfolding sentOnce_def by blast

section \<open>Properties of the session\<close>

subsection \<open>Statements that keep a property\<close>

lemma inv_skip: "inv I skip" and inv_ret: "inv I ret" and inv_throw: "inv I (throw err)"
  by (simp_all add: inv_def skip_def ret_def throw_def)

lemma inv_block_Nil: "inv I (block [])"
  by (simp add: inv_def)

lemma inv_block_Cons: "inv I a \<Longrightarrow> inv I (block as) \<Longrightarrow> inv I (block (a # as))"
  by (auto simp: inv_def split: prod.splits outcome.splits)

lemma inv_ifDo: "inv I a \<Longrightarrow> inv I (ifDo c a)"
  by (simp add: inv_def ifDo_def)

lemma inv_withBot: "(\<And>b. inv I (f b)) \<Longrightarrow> inv I (withBot f)"
  by (simp add: inv_def withBot_def)

lemma inv_withUser: "(\<And>u. inv I (f u)) \<Longrightarrow> inv I (withUser f)"
  by (simp add: inv_def withUser_def split: option.splits)

lemma inv_withEntityId: "(\<And>i. inv I (f i)) \<Longrightarrow> inv I (withEntityId f)"
  by (simp add: inv_def withEntityId_def split: sum.splits)

lemma inv_sendOn: "(\<And>i. inv I (sockSend i f)) \<Longrightarrow> inv I (sendOn field f)"
  by (simp add: inv_def sendOn_def split: option.splits)

lemma inv_closeOn: "(\<And>i. inv I (sockClose i)) \<Longrightarrow> inv I (closeOn field)"
  by (simp add: inv_def closeOn_def split: option.splits)


subsection \<open>Properties of the bot's fields\<close>

lemma inv_bot_kept: "(\<And>w. bot (fst (a w)) = bot w) \<Longrightarrow> inv (\<lambda>w. P (bot w)) a"
  by (simp add: inv_def)

lemma inv_bot_updBot: "(\<And>b. P b \<Longrightarrow> P (f b)) \<Longrightarrow> inv (\<lambda>w. P (bot w)) (updBot f)"
  by (simp add: inv_def updBot_def)

lemma inv_bot_guarded:
  "(\<And>w. P (bot w) \<Longrightarrow> c w \<Longrightarrow> P (f (bot w))) \<Longrightarrow> inv (\<lambda>w. P (bot w)) (ifDo c (updBot f))"
  by (simp add: inv_def updBot_def ifDo_def)

lemma bot_sockSend: "bot (fst (sockSend i f w)) = bot w"
  by (simp add: sockSend_def split: readyState.splits)

lemma bot_sockClose: "bot (fst (sockClose i w)) = bot w"
  by (simp add: sockClose_def)

lemma bot_setTimer: "bot (fst (setTimer ms rep a w)) = bot w"
  by (simp add: setTimer_def)

lemma bot_settle: "bot (settle p r w) = bot w"
  by (simp add: settle_def)

lemma bot_clearTimer: "bot (clearTimer t w) = bot w"
  by (simp add: clearTimer_def)

lemma bot_doSettle: "bot (fst (doSettle p r w)) = bot w"
  by (simp add: doSettle_def bot_settle)

lemma bot_awaitAuthCode: "bot (fst (awaitAuthCode p w)) = bot w"
  by (simp add: awaitAuthCode_def split: option.splits)

lemmas inv_bot_leaves =
  inv_bot_kept[of "sockSend i f" for i f, OF bot_sockSend]
  inv_bot_kept[of "sockClose i" for i, OF bot_sockClose]
  inv_bot_kept[of "setTimer ms rep a" for ms rep a, OF bot_setTimer]
  inv_bot_kept[of "doSettle p r" for p r, OF bot_doSettle]
  inv_bot_kept[of "awaitAuthCode p" for p, OF bot_awaitAuthCode]

lemmas inv_struct = inv_skip inv_ret inv_throw inv_block_Nil inv_block_Cons inv_ifDo inv_withBot
  inv_withUser inv_withEntityId inv_sendOn inv_closeOn

lemmas send_defs = sendPing_def sendAuthParams_def sendGameAuth_def sendJoinLobby_def
  sendJoinRoomWithProperties_def sendJoinNotify_def spawnPlayer_def sendAuthToken_def
  idkWhatPacketThisIs_def sendPlayerBodyPacket_def sendLeaveRoomPacket_def leaveRoom_def
  joinRoomFromLobby_def pingLoop_def

subsection \<open>No inbound event sets the session back\<close>

lemma notBehind_refl: "notBehind b b"
  by (simp add: notBehind_def)

lemma notBehind_addPlayers: "inv (\<lambda>w. notBehind b0 (bot w)) (addPlayers kvs)"
  unfolding inv_def
proof (induction kvs)
  case Nil
  then show ?case by simp
next
  case (Cons kv kvs)
  obtain key v where kv: "kv = (key, v)" by (cases kv)
  show ?case
  proof (intro allI impI)
    fix w :: world assume a: "notBehind b0 (bot w)"
    show "notBehind b0 (bot (fst (addPlayers (kv # kvs) w)))"
    proof (cases "startsWith key ''int32''")
      case False
      with Cons a kv show ?thesis by simp
    next
      case True
      show ?thesis
      proof (cases "playerOf key v")
        case (Inl err)
        with True a kv show ?thesis by simp
      next
        case (Inr p)
        from a have "notBehind b0 (bot (w\<lparr>bot := (bot w)\<lparr>players := players (bot w) @ [p]\<rparr>\<rparr>))"
          by (auto simp: notBehind_def)
        with Cons have "notBehind b0 (bot (fst (addPlayers kvs (w\<lparr>bot := (bot w)\<lparr>players := players (bot w) @ [p]\<rparr>\<rparr>))))"
          by blast
        with True Inr kv show ?thesis by simp
      qed
    qed
  qed
qed

lemma notBehind_connect: "inv (\<lambda>w. notBehind b0 (bot w)) connectToGameServer"
  by (simp add: inv_def connectToGameServer_def notBehind_def)

lemma inv_ifDo_guarded: "(\<And>w. I w \<Longrightarrow> c w \<Longrightarrow> I (fst (a w))) \<Longrightarrow> inv I (ifDo c a)"
  by (simp add: inv_def ifDo_def)

lemma notBehind_address:
  "inv (\<lambda>w. notBehind b0 (bot w))
     (ifDo (\<lambda>w. looseEqEmpty (serverAddress (bot w)) \<and> c)
        (block [updBot (\<lambda>b. b\<lparr>serverAddress := v\<rparr>), connectToGameServer]))"
  by (rule inv_ifDo_guarded) (auto simp: notBehind_def updBot_def connectToGameServer_def)

lemma notBehind_lobbyOnOpen: "inv (\<lambda>w. notBehind b0 (bot w)) (lobbyOnOpen e)"
  unfolding lobbyOnOpen_def send_defs
  by (intro inv_struct inv_bot_leaves)

lemma notBehind_lobbyOnMessage: "inv (\<lambda>w. notBehind b0 (bot w)) (lobbyOnMessage k e p)"
  unfolding lobbyOnMessage_def send_defs
  by (intro notBehind_address inv_bot_guarded inv_struct inv_bot_leaves inv_bot_updBot;
      (auto simp: notBehind_def)?)

lemma notBehind_gameOnOpen: "inv (\<lambda>w. notBehind b0 (bot w)) (gameOnOpen e)"
  unfolding gameOnOpen_def send_defs
  by (intro inv_struct inv_bot_leaves inv_bot_updBot;
      (auto simp: notBehind_def intro!: inv_struct inv_bot_leaves split: option.splits)?)

lemma notBehind_gameOnMessage: "inv (\<lambda>w. notBehind b0 (bot w)) (gameOnMessage k e p)"
  unfolding gameOnMessage_def send_defs
  by (intro inv_struct inv_bot_leaves inv_bot_updBot notBehind_addPlayers;
      (auto simp: notBehind_def)?)

lemma notBehind_afterAuthCode: "inv (\<lambda>w. notBehind b0 (bot w)) (afterAuthCode k e p c)"
  unfolding afterAuthCode_def send_defs
  by (intro inv_struct inv_bot_leaves inv_bot_updBot;
      (auto simp: notBehind_def)?)

lemma notBehind_fire: "inv (\<lambda>w. notBehind b0 (bot w)) (fire k a)"
  unfolding fire_def send_defs
  by (cases a) (auto intro!: inv_struct inv_bot_leaves)

lemma bot_handle: "inv (\<lambda>w. P (bot w)) a \<Longrightarrow> P (bot w) \<Longrightarrow> P (bot (handle a w))"
  by (auto simp: inv_def handle_def split: prod.splits outcome.splits)

lemma bot_fold_runWaiter: "bot (fold runWaiter tps w) = bot w"
  by (induction tps arbitrary: w) (simp_all add: runWaiter_def bot_settle bot_clearTimer)

lemma notBehind_step:
  assumes "inbound ev" "notBehind b0 (bot w)"
  shows "notBehind b0 (bot (step k e ev w))"
proof (cases ev)
  case (Opened i)
  have "notBehind b0 (bot (setReadyState i OPEN w))"
    using assms by (simp add: setReadyState_def)
  then show ?thesis
    using assms Opened
    by (auto simp: step_def split: role.splits
        intro!: bot_handle[where P="notBehind b0"] notBehind_lobbyOnOpen notBehind_gameOnOpen)
next
  case (Message i p)
  then show ?thesis
    using assms
    by (auto simp: step_def bot_fold_runWaiter split: role.splits
        intro!: bot_handle[where P="notBehind b0"] notBehind_lobbyOnMessage notBehind_gameOnMessage)
next
  case (Closed i)
  then show ?thesis using assms by (simp add: step_def setReadyState_def)
next
  case (AuthCode n r)
  show ?thesis
    using assms unfolding AuthCode step_def Let_def
    by (auto split: sum.splits
        intro!: bot_handle[where P="notBehind b0"] notBehind_afterAuthCode inv_throw)
next
  case (Fire t)
  then show ?thesis
    using assms
    by (auto simp: step_def bot_clearTimer
        intro!: bot_handle[where P="notBehind b0"] notBehind_fire)
qed (use assms in simp_all)


subsection \<open>The references stay valid\<close>

lemma map_update_same: "f y = f (xs ! i) \<Longrightarrow> map f (xs[i := y]) = map f xs"
  by (induction xs arbitrary: i) (auto split: nat.splits)

lemma shape_sockSend:
  "sockShape (fst (sockSend i f w)) = sockShape w" "timerShape (fst (sockSend i f w)) = timerShape w"
  "joins (fst (sockSend i f w)) = joins w"
  by (simp_all add: sockSend_def sockShape_def timerShape_def map_update_same split: readyState.splits)

lemma shape_sockClose:
  "sockShape (fst (sockClose i w)) = sockShape w" "timerShape (fst (sockClose i w)) = timerShape w"
  "joins (fst (sockClose i w)) = joins w"
  by (simp_all add: sockClose_def sockShape_def timerShape_def map_update_same)

lemma shape_setReadyState:
  "sockShape (setReadyState i r w) = sockShape w" "timerShape (setReadyState i r w) = timerShape w"
  "joins (setReadyState i r w) = joins w" "bot (setReadyState i r w) = bot w"
  by (simp_all add: setReadyState_def sockShape_def timerShape_def map_update_same)

lemma shape_clearTimer:
  "sockShape (clearTimer t w) = sockShape w" "timerShape (clearTimer t w) = timerShape w"
  "joins (clearTimer t w) = joins w"
  by (simp_all add: clearTimer_def sockShape_def timerShape_def map_update_same)

lemma shape_settle:
  "sockShape (settle p r w) = sockShape w" "timerShape (settle p r w) = timerShape w"
  "length (joins (settle p r w)) = length (joins w)"
  by (simp_all add: settle_def sockShape_def timerShape_def)

lemma wf_updBot:
  "(\<And>b. lobbySocket (f b) = lobbySocket b \<and> gameSocket (f b) = gameSocket b) \<Longrightarrow> inv wf (updBot f)"
  by (simp add: inv_def updBot_def wf_def sockShape_def timerShape_def)

lemma wf_sockSend: "inv wf (sockSend i f)"
  by (simp add: inv_def wf_def shape_sockSend bot_sockSend)

lemma wf_sockClose: "inv wf (sockClose i)"
  by (simp add: inv_def wf_def shape_sockClose bot_sockClose)

lemma wf_setReadyState: "wf w \<Longrightarrow> wf (setReadyState i r w)"
  by (simp add: wf_def shape_setReadyState)

lemma wf_clearTimer: "wf w \<Longrightarrow> wf (clearTimer t w)"
  by (simp add: wf_def shape_clearTimer bot_clearTimer)

lemma wf_settle: "wf w \<Longrightarrow> wf (settle p r w)"
  by (simp add: wf_def shape_settle bot_settle)

lemma wf_doSettle: "inv wf (doSettle p r)"
  by (simp add: inv_def doSettle_def wf_settle)

lemma wf_awaitAuthCode: "inv wf (awaitAuthCode p)"
  by (simp add: inv_def awaitAuthCode_def wf_def sockShape_def timerShape_def split: option.splits)

lemma wfShape_timer:
  "wfShape l g ss ts n \<Longrightarrow> (\<And>p. a = JoinTimeout p \<Longrightarrow> p < n) \<Longrightarrow> wfShape l g ss (ts @ [(rep, a)]) n"
  unfolding wfShape_def by (auto simp: nth_append less_Suc_eq)

lemma wfShape_lobby:
  "wfShape l g ss ts n \<Longrightarrow> wfShape (Some (length ss)) g (ss @ [(LobbyRole, [])]) ts n"
  unfolding wfShape_def by (auto simp: nth_append)

lemma wfShape_game:
  "wfShape l g ss ts n \<Longrightarrow> wfShape l (Some (length ss)) (ss @ [(GameRole, [])]) ts n"
  unfolding wfShape_def by (auto simp: nth_append)

lemma wfShape_promise: "wfShape l g ss ts n \<Longrightarrow> wfShape l g ss ts (Suc n)"
  unfolding wfShape_def by (auto simp: less_SucI)

lemma wf_setTimer: "(\<And>p. a \<noteq> JoinTimeout p) \<Longrightarrow> inv wf (setTimer ms rep a)"
  by (auto simp: inv_def setTimer_def wf_def sockShape_def timerShape_def intro!: wfShape_timer)

lemma wf_connect: "inv wf connectToGameServer"
  by (simp add: inv_def connectToGameServer_def wf_def sockShape_def timerShape_def newSocket_def
      wfShape_game[of _ _ "map f xs" for f xs, simplified])

lemma wf_openLobbySocket: "inv wf openLobbySocket"
  by (simp add: inv_def openLobbySocket_def wf_def sockShape_def timerShape_def newSocket_def
      wfShape_lobby[of _ _ "map f xs" for f xs, simplified])

lemma wf_generateAccount: "inv wf (generateAccount e)"
  by (simp add: inv_def generateAccount_def wf_def sockShape_def timerShape_def split: option.splits)

lemma wf_addPlayers: "inv wf (addPlayers kvs)"
  unfolding inv_def
proof (induction kvs)
  case Nil
  then show ?case by simp
next
  case (Cons kv kvs)
  obtain key v where kv: "kv = (key, v)" by (cases kv)
  have upd: "wf (w\<lparr>bot := (bot w)\<lparr>players := ps\<rparr>\<rparr>)" if "wf w" for w :: world and ps
    using that by (simp add: wf_def sockShape_def timerShape_def)
  show ?case
    using Cons upd unfolding kv
    by (simp split: sum.splits)
qed

lemmas wf_leaves = wf_sockSend wf_sockClose wf_doSettle wf_awaitAuthCode wf_connect
  wf_openLobbySocket wf_generateAccount wf_addPlayers


lemma wf_lobbyOnOpen: "inv wf (lobbyOnOpen e)"
  unfolding lobbyOnOpen_def send_defs
  by (intro inv_struct wf_leaves)

lemma wf_lobbyOnMessage: "inv wf (lobbyOnMessage k e p)"
  unfolding lobbyOnMessage_def send_defs
  by (intro inv_struct wf_leaves wf_updBot wf_setTimer; simp?)

lemma wf_pingLoop: "inv wf (pingLoop g)"
  unfolding pingLoop_def
  by (intro inv_struct wf_setTimer; simp?)


lemma wf_gameOnOpen: "inv wf (gameOnOpen e)"
  unfolding gameOnOpen_def sendPing_def
  by (intro inv_struct wf_leaves wf_updBot;
      (simp add: inv_skip wf_pingLoop split: option.splits)?)

lemma wf_gameOnMessage: "inv wf (gameOnMessage k e p)"
  unfolding gameOnMessage_def send_defs
  by (intro inv_struct wf_leaves wf_updBot; simp?)

lemma wf_afterAuthCode: "inv wf (afterAuthCode k e p c)"
  unfolding afterAuthCode_def send_defs
  by (intro inv_struct wf_leaves wf_updBot; simp?)

lemma wf_fire: "inv wf (fire k a)"
  unfolding fire_def send_defs
  by (cases a) (auto intro!: inv_struct wf_leaves)


lemma wf_faults: "wf (w\<lparr>faults := es\<rparr>) = wf w"
  and wf_responses: "wf (w\<lparr>responses := rs\<rparr>) = wf w"
  and wf_fetches: "wf (w\<lparr>fetches := fs\<rparr>) = wf w"
  by (simp_all add: wf_def sockShape_def timerShape_def)

lemma wf_handle: "inv wf a \<Longrightarrow> wf w \<Longrightarrow> wf (handle a w)"
  by (auto simp: inv_def handle_def wf_faults split: prod.splits outcome.splits)

lemma wf_fold_runWaiter: "wf w \<Longrightarrow> wf (fold runWaiter tps w)"
  by (induction tps arbitrary: w) (simp_all add: runWaiter_def wf_settle wf_clearTimer)

lemma wfShape_waiter:
  assumes "wfShape l g ss ts n" "p < n" "i < length ss"
  shows "wfShape l g (ss[i := (fst (ss ! i), snd (ss ! i) @ [(length ts, p)])])
           (ts @ [(False, JoinTimeout p)]) n"
proof -
  let ?new = "(fst (ss ! i), snd (ss ! i) @ [(length ts, p)])"
  let ?ss = "ss[i := ?new]"
  let ?ts = "ts @ [(False, JoinTimeout p)]"
  have old: "fst tp < length ts \<and> \<not> fst (ts ! fst tp) \<and> snd tp < n"
    if "s \<in> set ss" "tp \<in> set (snd s)" for s tp
    using assms(1) that unfolding wfShape_def by blast
  have ok: "fst tp < length ?ts \<and> \<not> fst (?ts ! fst tp) \<and> snd tp < n"
    if "fst tp < length ts \<and> \<not> fst (ts ! fst tp) \<and> snd tp < n" for tp
    using that by (simp add: nth_append)
  have w: "fst tp < length ?ts \<and> \<not> fst (?ts ! fst tp) \<and> snd tp < n"
    if s: "s \<in> set ?ss" and tp: "tp \<in> set (snd s)" for s tp
  proof -
    from s set_update_subset_insert[of ss i ?new] have "s \<in> set ss \<or> s = ?new" by auto
    then show ?thesis
    proof
      assume "s \<in> set ss"
      with tp old ok show ?thesis by blast
    next
      assume "s = ?new"
      with tp have "tp \<in> set (snd (ss ! i)) \<or> tp = (length ts, p)" by auto
      then show ?thesis
      proof
        assume "tp \<in> set (snd (ss ! i))"
        moreover have "ss ! i \<in> set ss" using assms(3) by simp
        ultimately show ?thesis using old ok by blast
      next
        assume "tp = (length ts, p)"
        with assms(2) show ?thesis by simp
      qed
    qed
  qed
  have t: "q < n" if "t \<in> set ?ts" "snd t = JoinTimeout q" for t q
  proof -
    from that(1) have "t \<in> set ts \<or> t = (False, JoinTimeout p)" by auto
    then show ?thesis
      using assms(1,2) that(2) unfolding wfShape_def by auto
  qed
  have l: "j < length ?ss \<and> fst (?ss ! j) = LobbyRole" if "l = Some j" for j
    using assms(1,3) that unfolding wfShape_def by (auto simp: nth_list_update)
  have g: "j < length ?ss \<and> fst (?ss ! j) = GameRole" if "g = Some j" for j
    using assms(1,3) that unfolding wfShape_def by (auto simp: nth_list_update)
  show ?thesis
    unfolding wfShape_def using l g w t by blast
qed

lemma wf_awaitJoin: "inv (\<lambda>w. wf w \<and> p < length (joins w)) (awaitJoin p)"
proof -
  have "wf (fst (awaitJoin p w)) \<and> p < length (joins (fst (awaitJoin p w)))"
    if w: "wf w" "p < length (joins w)" for w
  proof (cases "gameSocket (bot w)")
    case None
    with w show ?thesis
      by (auto simp: awaitJoin_def setTimer_def wf_def sockShape_def timerShape_def Let_def
          intro!: wfShape_timer)
  next
    case (Some g)
    show ?thesis
    proof (cases "g < length (sockets w)")
      case False
      with w Some show ?thesis
        by (auto simp: awaitJoin_def setTimer_def wf_def sockShape_def timerShape_def Let_def
            intro!: wfShape_timer)
    next
      case True
      from w True have "wfShape (lobbySocket (bot w)) (gameSocket (bot w))
          ((sockShape w)[g := (fst (sockShape w ! g), snd (sockShape w ! g) @ [(length (timerShape w), p)])])
          (timerShape w @ [(False, JoinTimeout p)]) (length (joins w))"
        unfolding wf_def by (intro wfShape_waiter) (simp_all add: sockShape_def)
      with w Some True show ?thesis
        by (simp add: awaitJoin_def setTimer_def wf_def sockShape_def timerShape_def Let_def
            map_update)
    qed
  qed
  then show ?thesis unfolding inv_def by blast
qed

lemma inv_and_length:
  "inv wf a \<Longrightarrow> (\<And>w. joins (fst (a w)) = joins w) \<Longrightarrow> inv (\<lambda>w. wf w \<and> p < length (joins w)) a"
  by (simp add: inv_def)


lemma wf_joinRoomBody: "inv (\<lambda>w. wf w \<and> p < length (joins w)) (joinRoomBody e r p)"
  unfolding joinRoomBody_def
  apply (intro inv_block_Cons inv_block_Nil inv_ifDo wf_awaitJoin)
    apply (rule inv_and_length[OF wf_generateAccount])
    apply (simp add: generateAccount_def split: option.splits)
   apply (rule inv_and_length[OF wf_updBot])
    apply simp
   apply (simp add: updBot_def)
  apply (rule inv_and_length[OF wf_openLobbySocket])
  apply (simp add: openLobbySocket_def)
  done

lemma wf_joinRoom: "wf w \<Longrightarrow> wf (joinRoom e r w)"
proof -
  assume w: "wf w"
  let ?w0 = "w\<lparr>joins := joins w @ [Pending]\<rparr>"
  have "wf ?w0 \<and> length (joins w) < length (joins ?w0)"
    using w by (simp add: wf_def sockShape_def timerShape_def wfShape_promise)
  with wf_joinRoomBody[of "length (joins w)" e r]
  have "wf (fst (joinRoomBody e r (length (joins w)) ?w0))"
    unfolding inv_def by blast
  then show ?thesis
    by (auto simp: joinRoom_def Let_def wf_settle split: prod.splits outcome.splits)
qed


lemma wf_respond: "wf (respond n w) = wf w"
  by (simp add: respond_def wf_responses)

lemma wf_step: "wf w \<Longrightarrow> wf (step k e ev w)"
proof (cases ev)
  case (Opened i)
  assume "wf w"
  then show ?thesis
    unfolding Opened step_def
    by (auto split: role.splits intro!: wf_handle wf_lobbyOnOpen wf_gameOnOpen wf_setReadyState)
next
  case (Message i p)
  assume "wf w"
  then show ?thesis
    unfolding Message step_def
    by (auto split: role.splits intro!: wf_handle wf_fold_runWaiter wf_lobbyOnMessage wf_gameOnMessage)
next
  case (Closed i)
  assume "wf w"
  then show ?thesis
    unfolding Closed step_def by (simp add: wf_setReadyState)
next
  case (AuthCode n r)
  assume "wf w"
  then show ?thesis
    unfolding AuthCode step_def Let_def
    by (auto split: sum.splits simp: wf_fetches intro!: wf_handle wf_afterAuthCode inv_throw)
next
  case (Fire t)
  assume "wf w"
  then show ?thesis
    unfolding Fire step_def
    by (auto intro!: wf_handle wf_fire wf_clearTimer)
next
  case (ApiJoinRoom r)
  assume "wf w"
  then show ?thesis
    unfolding ApiJoinRoom step_def
    by (simp add: apiJoinRoom_def wf_respond wf_joinRoom)
next
  case ApiSpawn
  assume w: "wf w"
  have "inv wf (ifDo (\<lambda>w. isInRoom (bot w)) (spawnPlayer k e))"
    unfolding send_defs by (intro inv_struct wf_leaves)
  with w have "wf (fst (ifDo (\<lambda>w. isInRoom (bot w)) (spawnPlayer k e) w))"
    unfolding inv_def by blast
  then show ?thesis
    unfolding ApiSpawn step_def
    by (auto simp: apiSpawn_def wf_respond split: prod.splits outcome.splits)
next
  case ApiLeaveRoom
  assume w: "wf w"
  have "inv wf (block [ifDo (\<lambda>w. gameSocket (bot w) \<noteq> None) (leaveRoom k), updBot resetBot])"
    unfolding send_defs by (intro inv_struct wf_leaves wf_updBot) (simp add: resetBot_def)
  with w have "wf (fst (block [ifDo (\<lambda>w. gameSocket (bot w) \<noteq> None) (leaveRoom k), updBot resetBot] w))"
    unfolding inv_def by blast
  with w show ?thesis
    unfolding ApiLeaveRoom step_def
    by (auto simp: apiLeaveRoom_def wf_respond split: prod.splits outcome.splits)
qed

lemma wf_run: "wf w \<Longrightarrow> wf (run k evs w)"
  unfolding run_def
  by (induction evs arbitrary: w) (auto simp: wf_step)

lemma wf_newWorld: "lobbySocket b = None \<Longrightarrow> gameSocket b = None \<Longrightarrow> wf (newWorld b)"
  by (simp add: wf_def newWorld_def wfShape_def sockShape_def timerShape_def)

lemmas act_defs = skip_def ret_def throw_def ifDo_def updBot_def withBot_def sockSend_def sockClose_def
  sendOn_def closeOn_def setTimer_def clearTimer_def settle_def doSettle_def withUser_def
  withEntityId_def handle_def setReadyState_def respond_def newSocket_def

lemmas js_defs = numEq_def param_def nullish_def orElse_def numToString_def toStringMethod_def
  parseInt_def parseIntStr_def digitValue_def hexValue_def getProp_def getPropOpt_def entries_def
  looseEqEmpty_def looseEqText_def startsWith_def splitOn_def trim_def isSpace_def second_def
  rxremoveStart_def clanPrefixPattern_def colorTagPattern_def lits_def hexDigits_def digits_def
  nrToString_def plusOne_def entityId_def validUrl_def tickCount_def serverTime_def

lemmas handler_defs = step_def run_def apiJoinRoom_def apiLeaveRoom_def apiSpawn_def resetBot_def
  joinRoom_def joinRoomBody_def awaitJoin_def openLobbySocket_def
  generateAccount_def lobbyOnOpen_def lobbyOnMessage_def gameOnOpen_def gameOnMessage_def
  afterAuthCode_def awaitAuthCode_def runWaiter_def fire_def connectToGameServer_def
  cleanUsername_def playerOf_def

lemmas scenario_defs = freshWorld_def freshBot_def newWorld_def newBot_def env0_def photonCodes_def botAccount_def
  initResponse_def lobbyAuthResponse_def addressResponse_def gameAuthResponse_def occupant_def
  joinResponse_def actorTrigger_def joinEvents_def

lemmas eval_defs = act_defs js_defs handler_defs send_defs scenario_defs Let_def

subsection \<open>Packets out of order\<close>

text \<open>
  C5, as stated, does not hold. The session \<open>unauthenticatedWorld\<close> has received no
  authenticate response on either channel: no token is recorded and no game
  authentication was sent. A join response that lists two occupants is not ignored
  there: it sets \<^verbatim>\<open>isInGame\<close> and fills the roster.
\<close>

theorem join_response_before_authentication:
  "\<not> authSent (bot unauthenticatedWorld) \<and> authToken (bot unauthenticatedWorld) = JStr []
   \<and> \<not> isInGame (bot unauthenticatedWorld) \<and> players (bot unauthenticatedWorld) = []
   \<and> isInGame (bot (step photonCodes env0 (Message 1 joinResponse) unauthenticatedWorld))
   \<and> map fst (players (bot (step photonCodes env0 (Message 1 joinResponse) unauthenticatedWorld)))
        = [''1'', ''2'']
   \<and> \<not> authSent (bot (step photonCodes env0 (Message 1 joinResponse) unauthenticatedWorld))"
  by (simp add: unauthenticatedWorld_def eval_defs)


text \<open>
  C5, amended. For every sequence of inbound events (socket events, packets, timers,
  fetches), in whatever order, from every state: a flag among \<^verbatim>\<open>isInGame\<close>,
  \<^verbatim>\<open>isInRoom\<close>, \<^verbatim>\<open>alreadyJoined\<close> and \<^verbatim>\<open>authSent\<close> that is set stays set, the roster
  keeps its entries and grows at its end only, and an auth token or a server address
  that has been recorded is kept. Nothing is said here of the other fields.
\<close>

theorem inbound_events_never_set_back:
  "\<forall>x \<in> set evs. inbound (snd x) \<Longrightarrow> notBehind (bot w) (bot (run k evs w))"
proof -
  have "notBehind b0 (bot w) \<Longrightarrow> \<forall>x \<in> set evs. inbound (snd x) \<Longrightarrow> notBehind b0 (bot (run k evs w))" for b0
    unfolding run_def
  proof (induction evs arbitrary: w)
    case Nil
    then show ?case by simp
  next
    case (Cons x evs)
    obtain e ev where x: "x = (e, ev)" by (cases x)
    from Cons.prems x have "notBehind b0 (bot (step k e ev w))"
      by (intro notBehind_step) simp_all
    with Cons.IH[of "step k e ev w"] Cons.prems x show ?case by simp
  qed
  then show "\<forall>x \<in> set evs. inbound (snd x) \<Longrightarrow> notBehind (bot w) (bot (run k evs w))"
    using notBehind_refl by blast
qed

text \<open>C5, amended, at the session above: a join response and a handshake-init packet.\<close>

theorem inbound_events_never_set_back_witness:
  "inbound (Message 1 joinResponse) \<and> inbound (Message 1 initResponse)
   \<and> notBehind (bot unauthenticatedWorld)
        (bot (run photonCodes [(env0, Message 1 joinResponse), (env0, Message 1 initResponse)]
                unauthenticatedWorld))
   \<and> isInGame (bot (run photonCodes [(env0, Message 1 joinResponse), (env0, Message 1 initResponse)]
                unauthenticatedWorld))"
proof -
  have a: "\<forall>x \<in> set [(env0, Message 1 joinResponse), (env0, Message 1 initResponse)]. inbound (snd x)"
    by simp
  have "isInGame (bot (run photonCodes [(env0, Message 1 joinResponse), (env0, Message 1 initResponse)]
                unauthenticatedWorld))"
    by (simp add: unauthenticatedWorld_def eval_defs)
  with inbound_events_never_set_back[OF a, of unauthenticatedWorld photonCodes]
  show ?thesis by simp
qed

subsection \<open>Leaving the room\<close>

text \<open>
  What the leave request of the management interface does for a session that is in a
  room (\<^verbatim>\<open>isInRoom\<close> or \<^verbatim>\<open>isInGame\<close>) with an open game channel: it sends the leave
  operation on that channel, clears the room name, the server address and the roster,
  resets the three flags and answers 200. It calls \<^verbatim>\<open>close\<close> on no socket, so the
  channel is in the state it was in, and so are the timers.
\<close>

theorem leave_room_resets_and_keeps_channel:
  assumes "isInRoom (bot w) \<or> isInGame (bot w)" "gameSocket (bot w) = Some g"
    "g < length (sockets w)" "readyState (sockets w ! g) = OPEN"
  shows "apiLeaveRoom k w =
           w\<lparr>sockets := (sockets w)[g := (sockets w ! g)
                \<lparr>sent := sent (sockets w ! g) @ [Buffer (leaveRoomPacket k)]\<rparr>],
             bot := (bot w)\<lparr>isInGame := False, isInRoom := False, alreadyJoined := False,
                     gameRoomName := [], serverAddress := JStr [], players := []\<rparr>,
             responses := responses w @ [200]\<rparr>
         \<and> readyState (sockets (apiLeaveRoom k w) ! g) = OPEN
         \<and> timers (apiLeaveRoom k w) = timers w"
  using assms
  by (auto simp: apiLeaveRoom_def act_defs send_defs resetBot_def)


text \<open>The state after the events of \<open>joinEvents\<close>.\<close>

lemma inRoomWorld_eq:
  "inRoomWorld =
     \<lparr>bot =
        \<lparr>botId = ''0123456789abcdef'',
         players =
           [(''1'', \<lparr>name = ''Ann'', actorNr = Integer 1, rank = Integer 42, kd = JNum (Dec ''1.5''),
                     team = Integer 0, kills = Integer 0, platform = JStr ''Unknown''\<rparr>),
            (''2'', \<lparr>name = ''Bob'', actorNr = Integer 2, rank = Integer 7, kd = JNum (Dec ''0.8''),
                     team = Integer 0, kills = Integer 0, platform = JStr ''Unknown''\<rparr>)],
         lastActorNr = NrString ''3'', showJoinMessageInChat = True, lobbySocket = Some 0,
         authSent = True, gameSocket = Some 1, authToken = JStr ''token'',
         account = Some botAccount, isInGame = True, isInRoom = True, alreadyJoined = True,
         startTime = 1000, lastPing = 0, serverTickOffset = 0,
         gameRoomName = ''Arena (#12345)'', serverAddress = JStr ''wss://game.example:2053''\<rparr>,
      sockets =
        [\<lparr>url = JStr lobbyUrl, readyState = CLOSING, role = LobbyRole, waiters = [],
          sent = [Buffer (pingPacket 1000), Buffer (authParamsPacket photonCodes env0),
                  Buffer (joinLobbyPacket photonCodes),
                  Buffer (joinGamePacket photonCodes ''Arena (#12345)'')]\<rparr>,
         \<lparr>url = JStr ''wss://game.example:2053'', readyState = OPEN, role = GameRole, waiters = [],
          sent = [Buffer (pingPacket 0), Buffer (gameAuthPacket photonCodes (JStr ''token'')),
                  Buffer (joinRoomPacket env0 ''Arena (#12345)'' ''bot''), Bytes idkBytes,
                  Buffer (joinNotifyPacket photonCodes env0 ''bot''),
                  Buffer (authTokenPacket photonCodes 0 (Integer 3001) ''code''),
                  Buffer (playerBodyPacket photonCodes 0 (Integer 3001)),
                  Buffer (presencePacket photonCodes)]\<rparr>],
      timers =
        [\<lparr>delay = 30000, repeating = False, action = JoinTimeout 0, active = True\<rparr>,
         \<lparr>delay = 1000, repeating = False, action = JoinFromLobby, active = False\<rparr>,
         \<lparr>delay = 2000, repeating = True, action = PingTick 1, active = True\<rparr>,
         \<lparr>delay = 5000, repeating = True, action = StatusTick 1, active = True\<rparr>],
      joins = [Pending], fetches = [(actorTrigger, False)], faults = [], responses = [200]\<rparr>"
  by (simp add: inRoomWorld_def eval_defs)


lemmas packet_defs = request_def createRequest_def addParam_def byte_def integer_def str_def
  pingPacket_def pingLoopPacket_def authParamsPacket_def gameAuthPacket_def joinLobbyPacket_def
  joinRoomPacket_def joinNotifyPacket_def spawnPacket_def authTokenPacket_def playerBodyPacket_def
  presencePacket_def craftedPacket_def leaveRoomPacket_def joinGamePacket_def

text \<open>The same at the session that has joined.\<close>

theorem leave_room_resets_and_keeps_channel_witness:
  "(isInRoom (bot inRoomWorld) \<or> isInGame (bot inRoomWorld)) \<and> gameSocket (bot inRoomWorld) = Some 1
   \<and> 1 < length (sockets inRoomWorld) \<and> readyState (sockets inRoomWorld ! 1) = OPEN
   \<and> players (bot (apiLeaveRoom photonCodes inRoomWorld)) = []
   \<and> gameRoomName (bot (apiLeaveRoom photonCodes inRoomWorld)) = []
   \<and> last (sent (sockets (apiLeaveRoom photonCodes inRoomWorld) ! 1)) = Buffer (leaveRoomPacket photonCodes)
   \<and> readyState (sockets (apiLeaveRoom photonCodes inRoomWorld) ! 1) = OPEN"
proof -
  have h: "isInRoom (bot inRoomWorld) \<or> isInGame (bot inRoomWorld)" "gameSocket (bot inRoomWorld) = Some 1"
    "1 < length (sockets inRoomWorld)" "readyState (sockets inRoomWorld ! 1) = OPEN"
    by (simp_all add: inRoomWorld_eq)
  from leave_room_resets_and_keeps_channel[OF h, of photonCodes] h
  show ?thesis by (simp add: inRoomWorld_eq)
qed

text \<open>
  C8. The handler of the leave request is introduced in the source as
  \<^verbatim>\<open>// Leave current room (disconnect bot)\<close>, and the handlers that delete a bot or shut
  the server down close its sockets; this one sends the leave operation and resets the
  fields, and closes nothing. After the leave request the game channel of the joined
  session is still open and the bot still refers to it, where the claim has it closed.
\<close>

theorem leave_room_leaves_channel_open:
  "alreadyJoined (bot inRoomWorld) \<and> gameSocket (bot inRoomWorld) = Some 1
   \<and> readyState (sockets inRoomWorld ! 1) = OPEN
   \<and> readyState (sockets (step photonCodes env0 ApiLeaveRoom inRoomWorld) ! 1) = OPEN
   \<and> gameSocket (bot (step photonCodes env0 ApiLeaveRoom inRoomWorld)) = Some 1
   \<and> responses (step photonCodes env0 ApiLeaveRoom inRoomWorld) = [200, 200]"
  by (simp add: inRoomWorld_eq step_def apiLeaveRoom_def act_defs send_defs resetBot_def)

subsection \<open>The trigger of event 255, delivered twice\<close>

text \<open>
  C3. In the session that has joined (\<^verbatim>\<open>alreadyJoined\<close> is set and one join-notify
  event has been sent), a second delivery of the packet with code 255 and parameters
  249 and 254 sends the join-notify event and the auth-code event again: the test of
  \<^verbatim>\<open>alreadyJoined\<close> comes after both sends. Two join-notify events have then been sent,
  where the claim allows one.
\<close>

theorem duplicate_trigger_repeats_join_notify:
  "alreadyJoined (bot inRoomWorld)
   \<and> sent (sockets (run photonCodes
          [(env0, Message 1 actorTrigger), (env0, AuthCode 1 (Inr ''code''))] inRoomWorld) ! 1)
       = sent (sockets inRoomWorld ! 1)
         @ [Buffer (joinNotifyPacket photonCodes env0 ''bot''),
            Buffer (authTokenPacket photonCodes 0 (Integer 3001) ''code'')]
   \<and> count_list (sent (sockets inRoomWorld ! 1)) (Buffer (joinNotifyPacket photonCodes env0 ''bot'')) = 1
   \<and> count_list (sent (sockets (run photonCodes
          [(env0, Message 1 actorTrigger), (env0, AuthCode 1 (Inr ''code''))] inRoomWorld) ! 1))
        (Buffer (joinNotifyPacket photonCodes env0 ''bot'')) = 2"
  by (simp add: inRoomWorld_eq eval_defs packet_defs)

subsection \<open>Benign properties\<close>

lemma benign_addPlayers: "benign I \<Longrightarrow> inv I (addPlayers kvs)"
proof -
  assume b: "benign I"
  have upd: "I (w\<lparr>bot := f (bot w)\<rparr>)" if "I w" for w :: world and f
    using b that unfolding benign_def inv_def updBot_def by (metis fst_conv)
  show ?thesis
    unfolding inv_def
  proof (induction kvs)
    case Nil
    then show ?case by simp
  next
    case (Cons kv kvs)
    obtain key v where kv: "kv = (key, v)" by (cases kv)
    show ?case
    proof (intro allI impI)
      fix w :: world assume w: "I w"
      show "I (fst (addPlayers (kv # kvs) w))"
      proof (cases "startsWith key ''int32''")
        case False
        with Cons w kv show ?thesis by simp
      next
        case True
        show ?thesis
        proof (cases "playerOf key v")
          case (Inl err)
          with True w kv show ?thesis by simp
        next
          case (Inr p)
          from upd[OF w, of "\<lambda>b. b\<lparr>players := players b @ [p]\<rparr>"]
          have "I (w\<lparr>bot := (bot w)\<lparr>players := players (bot w) @ [p]\<rparr>\<rparr>)" .
          with Cons have "I (fst (addPlayers kvs (w\<lparr>bot := (bot w)\<lparr>players := players (bot w) @ [p]\<rparr>\<rparr>)))"
            by blast
          with True Inr kv show ?thesis by simp
        qed
      qed
    qed
  qed
qed

lemma benign_leaves:
  assumes "benign I"
  shows "inv I (updBot f)" "inv I (sockSend i fr)" "inv I (awaitAuthCode p)"
    "inv I connectToGameServer" "inv I openLobbySocket" "inv I (addPlayers kvs)"
  using assms benign_addPlayers[OF assms] unfolding benign_def by blast+

lemma benign_setTimer: "benign I \<Longrightarrow> (\<And>p. a \<noteq> JoinTimeout p) \<Longrightarrow> inv I (setTimer ms rep a)"
  unfolding benign_def by blast

lemma benign_generateAccount: "benign I \<Longrightarrow> inv I (generateAccount e)"
proof -
  assume b: "benign I"
  have upd: "I (w\<lparr>bot := f (bot w)\<rparr>)" if "I w" for w :: world and f
    using b that unfolding benign_def inv_def updBot_def by (metis fst_conv)
  show ?thesis
    unfolding inv_def generateAccount_def
    using upd[of _ "\<lambda>b. b\<lparr>account := x\<rparr>" for x]
    by (auto split: option.splits)
qed

lemma benign_lobbyOnOpen: "benign I \<Longrightarrow> inv I (lobbyOnOpen e)"
  unfolding lobbyOnOpen_def send_defs
  by (intro inv_struct benign_leaves)

lemma benign_lobbyOnMessage: "benign I \<Longrightarrow> inv I (lobbyOnMessage k e p)"
  unfolding lobbyOnMessage_def send_defs
  by (intro inv_struct benign_leaves benign_setTimer; simp?)

lemma benign_gameOnMessage: "benign I \<Longrightarrow> inv I (gameOnMessage k e p)"
  unfolding gameOnMessage_def send_defs
  by (intro inv_struct benign_leaves; simp?)

lemma benign_afterAuthCode: "benign I \<Longrightarrow> inv I (afterAuthCode k e p c)"
  unfolding afterAuthCode_def send_defs
  by (intro inv_struct benign_leaves; simp?)

lemma benign_pingLoop: "benign I \<Longrightarrow> inv I (pingLoop g)"
  unfolding pingLoop_def
  by (intro inv_struct benign_setTimer; simp?)

lemma benign_afterClose:
  "benign I \<Longrightarrow>
   inv I (block [updBot f, sendPing e gameSocket,
                 withBot (\<lambda>b. case gameSocket b of None \<Rightarrow> skip | Some g \<Rightarrow> pingLoop g)])"
  unfolding sendPing_def
  by (intro inv_struct benign_leaves; (simp add: inv_skip benign_pingLoop split: option.splits)?)

lemma benign_gameOnOpen: "benign I \<Longrightarrow> (\<And>i. inv I (sockClose i)) \<Longrightarrow> inv I (gameOnOpen e)"
  unfolding gameOnOpen_def
  by (intro inv_block_Cons inv_closeOn benign_afterClose[unfolded block.simps(2)[symmetric]])
    (simp_all add: benign_afterClose)

lemma benign_fire:
  "benign I \<Longrightarrow> (\<And>p. a = JoinTimeout p \<Longrightarrow> inv I (doSettle p (Rejected (Error ''Connection timeout''))))
   \<Longrightarrow> inv I (fire k a)"
  unfolding fire_def send_defs
  by (cases a) (simp_all add: inv_struct benign_leaves)

lemma benign_spawn: "benign I \<Longrightarrow> inv I (ifDo c (spawnPlayer k e))"
  unfolding send_defs
  by (intro inv_struct benign_leaves)

lemma benign_leave: "benign I \<Longrightarrow> inv I (block [ifDo c (leaveRoom k), updBot resetBot])"
  unfolding send_defs
  by (intro inv_struct benign_leaves)

lemma benign_handle: "benign I \<Longrightarrow> inv I a \<Longrightarrow> I w \<Longrightarrow> I (handle a w)"
  unfolding benign_def
  by (auto simp: inv_def handle_def split: prod.splits outcome.splits)

lemma benign_respond: "benign I \<Longrightarrow> I w \<Longrightarrow> I (respond n w)"
  unfolding benign_def respond_def by blast


subsection \<open>Three benign properties\<close>

lemma benign_hasReadyState: "benign (hasReadyState i r)"
  unfolding benign_def inv_def hasReadyState_def
  by (auto simp: updBot_def sockSend_def setTimer_def awaitAuthCode_def connectToGameServer_def
      openLobbySocket_def nth_list_update nth_append split: readyState.splits option.splits)

lemma benign_hasTimer: "benign (hasTimer t tm)"
  unfolding benign_def inv_def hasTimer_def
  by (auto simp: updBot_def sockSend_def setTimer_def awaitAuthCode_def connectToGameServer_def
      openLobbySocket_def nth_append split: readyState.splits option.splits)

lemma waiters_update_sent:
  "s \<in> set (xs[i := (xs ! i)\<lparr>sent := y\<rparr>]) \<Longrightarrow> \<exists>s' \<in> set xs. waiters s = waiters s'"
proof -
  assume a: "s \<in> set (xs[i := (xs ! i)\<lparr>sent := y\<rparr>])"
  show ?thesis
  proof (cases "i < length xs")
    case True
    from a set_update_subset_insert[of xs i] have "s \<in> set xs \<or> s = (xs ! i)\<lparr>sent := y\<rparr>" by auto
    with True show ?thesis by (auto intro: bexI[of _ "xs ! i"])
  next
    case False
    then have "xs[i := (xs ! i)\<lparr>sent := y\<rparr>] = xs" by (intro list_update_beyond) simp
    with a show ?thesis by auto
  qed
qed

lemma pendingJoin_sockSend: "inv (pendingJoin p t) (sockSend i f)"
proof -
  have "pendingJoin p t (w\<lparr>sockets := (sockets w)[i := (sockets w ! i)\<lparr>sent := y\<rparr>]\<rparr>)"
    if "pendingJoin p t w" for w y
    using that waiters_update_sent[of _ "sockets w" i y]
    unfolding pendingJoin_def by (simp del: set_update_distinct) metis
  then show ?thesis
    unfolding inv_def sockSend_def by (auto split: readyState.splits)
qed

lemma benign_pendingJoin: "benign (pendingJoin p t)"
proof -
  have 1: "inv (pendingJoin p t) (updBot f)" for f
    by (simp add: inv_def updBot_def pendingJoin_def)
  have 3: "inv (pendingJoin p t) (setTimer ms rep a)" if "\<forall>q. a \<noteq> JoinTimeout q" for ms rep a
    using that by (auto simp: inv_def setTimer_def pendingJoin_def nth_append less_Suc_eq)
  have 4: "inv (pendingJoin p t) (awaitAuthCode q)" for q
    by (simp add: inv_def awaitAuthCode_def pendingJoin_def split: option.splits)
  have 5: "inv (pendingJoin p t) connectToGameServer"
    by (auto simp: inv_def connectToGameServer_def pendingJoin_def newSocket_def)
  have 6: "inv (pendingJoin p t) openLobbySocket"
    by (auto simp: inv_def openLobbySocket_def pendingJoin_def newSocket_def)
  show ?thesis
    unfolding benign_def using 1 pendingJoin_sockSend 3 4 5 6
    by (simp add: pendingJoin_def)
qed


subsection \<open>What the references give\<close>

lemma wf_lobby:
  "wf w \<Longrightarrow> lobbySocket (bot w) = Some i \<Longrightarrow> i < length (sockets w) \<and> role (sockets w ! i) = LobbyRole"
  unfolding wf_def wfShape_def sockShape_def by auto

lemma wf_game:
  "wf w \<Longrightarrow> gameSocket (bot w) = Some i \<Longrightarrow> i < length (sockets w) \<and> role (sockets w ! i) = GameRole"
  unfolding wf_def wfShape_def sockShape_def by auto

lemma wf_waiters:
  assumes "wf w" "s \<in> set (sockets w)" "tp \<in> set (waiters s)"
  shows "fst tp < length (timers w) \<and> \<not> repeating (timers w ! fst tp) \<and> snd tp < length (joins w)"
proof -
  from assms(2) have "(role s, waiters s) \<in> set (sockShape w)"
    unfolding sockShape_def by auto
  with assms(1,3) have "fst tp < length (timerShape w) \<and> \<not> fst (timerShape w ! fst tp) \<and> snd tp < length (joins w)"
    unfolding wf_def wfShape_def by fastforce
  then show ?thesis unfolding timerShape_def by auto
qed

lemma wf_timeouts:
  assumes "wf w" "t < length (timers w)" "action (timers w ! t) = JoinTimeout p"
  shows "p < length (joins w)"
proof -
  from assms(2) have "timerShape w ! t \<in> set (timerShape w)" "snd (timerShape w ! t) = action (timers w ! t)"
    unfolding timerShape_def by simp_all
  with assms(1,3) show ?thesis
    unfolding wf_def wfShape_def by metis
qed

subsection \<open>States of the sockets\<close>

lemma sockets_settle: "sockets (settle p r w) = sockets w"
  and sockets_clearTimer: "sockets (clearTimer t w) = sockets w"
  by (simp_all add: settle_def clearTimer_def)

lemma sockets_fold_runWaiter: "sockets (fold runWaiter tps w) = sockets w"
  by (induction tps arbitrary: w) (simp_all add: runWaiter_def sockets_settle sockets_clearTimer)

lemma hasReadyState_doSettle: "inv (hasReadyState i r) (doSettle p x)"
  by (simp add: inv_def doSettle_def hasReadyState_def sockets_settle)

lemma hasReadyState_awaitJoin: "inv (hasReadyState i r) (awaitJoin p)"
  by (auto simp: inv_def awaitJoin_def setTimer_def hasReadyState_def Let_def nth_list_update
      split: option.splits)

lemma hasReadyState_joinRoom: "hasReadyState i r w \<Longrightarrow> hasReadyState i r (joinRoom e room w)"
proof -
  assume a: "hasReadyState i r w"
  have "inv (hasReadyState i r) (joinRoomBody e room p)" for p
    unfolding joinRoomBody_def
    by (intro inv_struct benign_leaves benign_generateAccount benign_hasReadyState hasReadyState_awaitJoin)
  moreover from a have "hasReadyState i r (w\<lparr>joins := joins w @ [Pending]\<rparr>)"
    by (simp add: hasReadyState_def)
  ultimately have "hasReadyState i r (fst (joinRoomBody e room (length (joins w)) (w\<lparr>joins := joins w @ [Pending]\<rparr>)))"
    unfolding inv_def by blast
  then show ?thesis
    by (auto simp: joinRoom_def Let_def hasReadyState_def sockets_settle split: prod.splits outcome.splits)
qed

lemma hasReadyState_fire: "inv (hasReadyState i r) (fire k a)"
  by (intro benign_fire benign_hasReadyState hasReadyState_doSettle)

lemmas hasReadyState_handle = benign_handle[OF benign_hasReadyState]
lemmas hasReadyState_respond = benign_respond[OF benign_hasReadyState]
lemmas hasReadyState_handlers =
  benign_lobbyOnOpen[OF benign_hasReadyState] benign_lobbyOnMessage[OF benign_hasReadyState]
  benign_gameOnMessage[OF benign_hasReadyState] benign_afterAuthCode[OF benign_hasReadyState]

text \<open>Only the opening and the closing of a socket change the state of a socket.\<close>

lemma hasReadyState_step:
  assumes "hasReadyState i r w" "\<And>j. ev \<noteq> Opened j" "\<And>j. ev \<noteq> Closed j"
  shows "hasReadyState i r (step k e ev w)"
proof (cases ev)
  case (Message j p)
  have "hasReadyState i r (fold runWaiter tps w')" if "hasReadyState i r w'" for tps w'
    using that by (simp add: hasReadyState_def sockets_fold_runWaiter)
  with assms(1) show ?thesis
    unfolding Message step_def
    by (simp add: hasReadyState_handle hasReadyState_handlers split: role.splits)
next
  case (AuthCode n x)
  have "hasReadyState i r (w\<lparr>fetches := fs\<rparr>)" for fs
    using assms(1) by (simp add: hasReadyState_def)
  then show ?thesis
    using assms(1) unfolding AuthCode step_def Let_def
    by (simp add: hasReadyState_handle hasReadyState_handlers inv_throw split: sum.splits)
next
  case (Fire t)
  have "hasReadyState i r (clearTimer t w)"
    using assms(1) by (simp add: hasReadyState_def sockets_clearTimer)
  then show ?thesis
    using assms(1) unfolding Fire step_def
    by (simp add: hasReadyState_handle hasReadyState_fire)
next
  case (ApiJoinRoom room)
  then show ?thesis
    using assms(1) unfolding ApiJoinRoom step_def apiJoinRoom_def
    by (simp add: hasReadyState_respond hasReadyState_joinRoom)
next
  case ApiSpawn
  have "hasReadyState i r (fst (ifDo (\<lambda>w. isInRoom (bot w)) (spawnPlayer k e) w))"
    using benign_spawn[OF benign_hasReadyState, of i r "\<lambda>w. isInRoom (bot w)" k e] assms(1)
    unfolding inv_def by blast
  then show ?thesis
    unfolding ApiSpawn step_def apiSpawn_def
    by (auto simp: hasReadyState_respond split: prod.splits outcome.splits)
next
  case ApiLeaveRoom
  have "hasReadyState i r (fst (block [ifDo (\<lambda>w. gameSocket (bot w) \<noteq> None) (leaveRoom k), updBot resetBot] w))"
    using benign_leave[OF benign_hasReadyState, of i r "\<lambda>w. gameSocket (bot w) \<noteq> None" k] assms(1)
    unfolding inv_def by blast
  with assms(1) show ?thesis
    unfolding ApiLeaveRoom step_def apiLeaveRoom_def
    by (auto simp: hasReadyState_respond split: prod.splits outcome.splits)
qed (use assms in simp_all)



subsection \<open>The handoff from the lobby channel to the game channel\<close>

lemma handle_block_Next: "a w = (w', Next) \<Longrightarrow> handle (block (a # as)) w = handle (block as) w'"
  and handle_block_Throw:
    "a w = (w', Throw err) \<Longrightarrow> handle (block (a # as)) w = w'\<lparr>faults := faults w' @ [err]\<rparr>"
  by (simp_all add: handle_def)

lemma opened_game:
  assumes wf: "wf w" and j: "j < length (sockets w)" "readyState (sockets w ! j) = CONNECTING"
    "role (sockets w ! j) = GameRole"
  shows "hasReadyState j OPEN (step k e (Opened j) w)"
    and "i < length (sockets w) \<Longrightarrow> i \<noteq> j \<Longrightarrow> lobbySocket (bot w) \<noteq> Some i
         \<Longrightarrow> hasReadyState i (readyState (sockets w ! i)) (step k e (Opened j) w)"
proof -
  let ?w1 = "setReadyState j OPEN w"
  let ?rest = "[updBot (\<lambda>b. b\<lparr>startTime := now e, lastPing := 0, serverTickOffset := 0\<rparr>),
                sendPing e gameSocket,
                withBot (\<lambda>b. case gameSocket b of None \<Rightarrow> skip | Some g \<Rightarrow> pingLoop g)]"
  have step: "step k e (Opened j) w = handle (block (closeOn lobbySocket # ?rest)) ?w1"
    using j by (simp add: step_def gameOnOpen_def)
  have w1: "hasReadyState j OPEN ?w1"
    "\<And>i. i < length (sockets w) \<Longrightarrow> i \<noteq> j \<Longrightarrow> hasReadyState i (readyState (sockets w ! i)) ?w1"
    using j by (simp_all add: hasReadyState_def setReadyState_def)
  have rest: "hasReadyState x r (handle (block ?rest) w2)" if "hasReadyState x r w2" for x r w2
    using that by (intro hasReadyState_handle benign_afterClose benign_hasReadyState)
  have faults: "hasReadyState x r (w2\<lparr>faults := es\<rparr>) = hasReadyState x r w2" for x r w2 es
    by (simp add: hasReadyState_def)
  have none: "step k e (Opened j) w = ?w1\<lparr>faults := faults ?w1 @
      [TypeError ''Cannot read properties of undefined (reading 'close')'']\<rparr>"
    if "lobbySocket (bot w) = None"
    unfolding step using that
    by (intro handle_block_Throw) (simp add: closeOn_def setReadyState_def)
  have some: "step k e (Opened j) w = handle (block ?rest) (fst (sockClose l ?w1))"
    if "lobbySocket (bot w) = Some l" "l < length (sockets w)" for l
    unfolding step using that
    by (intro handle_block_Next) (simp add: closeOn_def setReadyState_def sockClose_def)
  show "hasReadyState j OPEN (step k e (Opened j) w)"
  proof (cases "lobbySocket (bot w)")
    case None
    then show ?thesis
      using w1(1) by (simp only: none faults)
  next
    case (Some l)
    with wf_lobby[OF wf] j have l: "l < length (sockets w)" "l \<noteq> j" by auto
    have "hasReadyState j OPEN (fst (sockClose l ?w1))"
      using w1(1) l by (simp add: sockClose_def hasReadyState_def setReadyState_def nth_list_update)
    then show ?thesis
      unfolding some[OF Some l(1)] by (rule rest)
  qed
  show "hasReadyState i (readyState (sockets w ! i)) (step k e (Opened j) w)"
    if i: "i < length (sockets w)" "i \<noteq> j" "lobbySocket (bot w) \<noteq> Some i"
  proof (cases "lobbySocket (bot w)")
    case None
    then show ?thesis
      using w1(2)[OF i(1,2)] by (simp only: none faults)
  next
    case (Some l)
    with wf_lobby[OF wf] i have l: "l < length (sockets w)" "l \<noteq> i" by auto
    have "hasReadyState i (readyState (sockets w ! i)) (fst (sockClose l ?w1))"
      using w1(2)[OF i(1,2)] l
      by (simp add: sockClose_def hasReadyState_def setReadyState_def nth_list_update)
    then show ?thesis
      unfolding some[OF Some l(1)] by (rule rest)
  qed
qed

lemma opened_lobby:
  assumes j: "j < length (sockets w)" "readyState (sockets w ! j) = CONNECTING"
    "role (sockets w ! j) = LobbyRole" and i: "i < length (sockets w)"
  shows "hasReadyState i (if i = j then OPEN else readyState (sockets w ! i)) (step k e (Opened j) w)"
proof -
  have "hasReadyState i (if i = j then OPEN else readyState (sockets w ! i)) (setReadyState j OPEN w)"
    using i j by (simp add: hasReadyState_def setReadyState_def)
  then show ?thesis
    using j by (simp add: step_def hasReadyState_handle hasReadyState_handlers)
qed

text \<open>A step that starts the closing of a socket.\<close>

lemma closing_step:
  assumes wf: "wf w" and i: "i < length (sockets w)" "readyState (sockets w ! i) \<noteq> CLOSING"
    and c: "readyState (sockets (step k e ev w) ! i) = CLOSING"
  shows "\<exists>j. ev = Opened j \<and> j < length (sockets w) \<and> role (sockets w ! j) = GameRole
            \<and> readyState (sockets w ! j) = CONNECTING
            \<and> readyState (sockets (step k e ev w) ! j) = OPEN
            \<and> lobbySocket (bot w) = Some i \<and> role (sockets w ! i) = LobbyRole"
proof (cases "(\<exists>j. ev = Opened j) \<or> (\<exists>j. ev = Closed j)")
  case False
  with i(1) have "hasReadyState i (readyState (sockets w ! i)) (step k e ev w)"
    by (intro hasReadyState_step) (simp_all add: hasReadyState_def)
  with c i(2) show ?thesis by (simp add: hasReadyState_def)
next
  case True
  then show ?thesis
  proof
    assume "\<exists>j. ev = Closed j"
    then obtain j where ev: "ev = Closed j" by blast
    have "readyState (sockets (step k e ev w) ! i) = (if i = j then CLOSED else readyState (sockets w ! i))"
      using i(1) unfolding ev by (simp add: step_def setReadyState_def nth_list_update)
    with c i(2) show ?thesis by (simp split: if_splits)
  next
    assume "\<exists>j. ev = Opened j"
    then obtain j where ev: "ev = Opened j" by blast
    show ?thesis
    proof (cases "j < length (sockets w) \<and> readyState (sockets w ! j) = CONNECTING")
      case False
      then have "step k e ev w = w" unfolding ev by (auto simp: step_def)
      with c i(2) show ?thesis by simp
    next
      case True
      show ?thesis
      proof (cases "role (sockets w ! j)")
        case LobbyRole
        from opened_lobby[of j w i k e] True LobbyRole i(1) c i(2) show ?thesis
          unfolding ev by (simp add: hasReadyState_def split: if_splits)
      next
        case GameRole
        from opened_game(1)[OF wf, of j k e] True GameRole
        have opn: "readyState (sockets (step k e ev w) ! j) = OPEN"
          unfolding ev by (simp add: hasReadyState_def)
        with c have ij: "i \<noteq> j" by auto
        have l: "lobbySocket (bot w) = Some i"
        proof (rule ccontr)
          assume "lobbySocket (bot w) \<noteq> Some i"
          with opened_game(2)[OF wf, of j i k e] True GameRole i(1) ij
          have "readyState (sockets (step k e ev w) ! i) = readyState (sockets w ! i)"
            unfolding ev by (simp add: hasReadyState_def)
          with c i(2) show False by simp
        qed
        with wf_lobby[OF wf l] opn True GameRole ev show ?thesis by simp
      qed
    qed
  qed
qed


text \<open>
  C6. In every state that a session reaches from its creation, an event that starts the
  closing of a socket is the opening of a game socket: that socket was connecting
  before the event and is open after it, and the socket being closed is the lobby
  socket of the bot. So the lobby channel is closed only once the game channel is open,
  and at the moment of the close the game channel is live. (The events are those of
  the session; deleting the bot and shutting the server down close both sockets.)
\<close>

theorem lobby_closed_only_after_game_opened:
  assumes "lobbySocket b = None" "gameSocket b = None" "w = run k evs (newWorld b)"
    and "i < length (sockets w)" "readyState (sockets w ! i) \<noteq> CLOSING"
    and "readyState (sockets (step k e ev w) ! i) = CLOSING"
  shows "\<exists>j. ev = Opened j \<and> j < length (sockets w) \<and> role (sockets w ! j) = GameRole
            \<and> readyState (sockets w ! j) = CONNECTING
            \<and> readyState (sockets (step k e ev w) ! j) = OPEN
            \<and> lobbySocket (bot w) = Some i \<and> role (sockets w ! i) = LobbyRole"
proof -
  from assms(1-3) have "wf w"
    by (simp add: wf_run wf_newWorld)
  from closing_step[OF this assms(4-6)] show ?thesis .
qed

text \<open>C6 at the handoff of the concrete session: the game socket 1 opens, the lobby
  socket 0 goes from open to closing.\<close>

theorem lobby_closed_only_after_game_opened_witness:
  "lobbySocket freshBot = None \<and> gameSocket freshBot = None
   \<and> 0 < length (sockets handoffWorld) \<and> readyState (sockets handoffWorld ! 0) = OPEN
   \<and> readyState (sockets (step photonCodes env0 (Opened 1) handoffWorld) ! 0) = CLOSING
   \<and> role (sockets handoffWorld ! 1) = GameRole
   \<and> readyState (sockets handoffWorld ! 1) = CONNECTING
   \<and> readyState (sockets (step photonCodes env0 (Opened 1) handoffWorld) ! 1) = OPEN
   \<and> lobbySocket (bot handoffWorld) = Some 0"
proof -
  have h: "lobbySocket freshBot = None" "gameSocket freshBot = None"
    "handoffWorld = run photonCodes handoffEvents (newWorld freshBot)"
    "0 < length (sockets handoffWorld)" "readyState (sockets handoffWorld ! 0) \<noteq> CLOSING"
    "readyState (sockets (step photonCodes env0 (Opened 1) handoffWorld) ! 0) = CLOSING"
    and o: "readyState (sockets handoffWorld ! 0) = OPEN"
    by (simp_all add: handoffWorld_def handoffEvents_def eval_defs)
  from lobby_closed_only_after_game_opened[OF h] h o show ?thesis
    by auto
qed

subsection \<open>The keep-alive timers\<close>

lemma timers_settle: "timers (settle p r w) = timers w"
  by (simp add: settle_def)

lemma hasTimer_clearTimer: "hasTimer t tm w \<Longrightarrow> t' \<noteq> t \<Longrightarrow> hasTimer t tm (clearTimer t' w)"
  by (simp add: hasTimer_def clearTimer_def)

lemma hasTimer_settle: "hasTimer t tm w \<Longrightarrow> hasTimer t tm (settle p r w)"
  by (simp add: hasTimer_def timers_settle)

lemma hasTimer_fold_runWaiter:
  "hasTimer t tm w \<Longrightarrow> \<forall>tp \<in> set tps. fst tp \<noteq> t \<Longrightarrow> hasTimer t tm (fold runWaiter tps w)"
  by (induction tps arbitrary: w) (simp_all add: runWaiter_def hasTimer_settle hasTimer_clearTimer)

lemma hasTimer_doSettle: "inv (hasTimer t tm) (doSettle p x)"
  by (simp add: inv_def doSettle_def hasTimer_settle)

lemma hasTimer_sockClose: "inv (hasTimer t tm) (sockClose i)"
  by (simp add: inv_def sockClose_def hasTimer_def)

lemma hasTimer_awaitJoin: "inv (hasTimer t tm) (awaitJoin p)"
  by (auto simp: inv_def awaitJoin_def setTimer_def hasTimer_def Let_def nth_append
      split: option.splits)

lemma hasTimer_joinRoom: "hasTimer t tm w \<Longrightarrow> hasTimer t tm (joinRoom e room w)"
proof -
  assume a: "hasTimer t tm w"
  have "inv (hasTimer t tm) (joinRoomBody e room p)" for p
    unfolding joinRoomBody_def
    by (intro inv_struct benign_leaves benign_generateAccount benign_hasTimer hasTimer_awaitJoin)
  moreover from a have "hasTimer t tm (w\<lparr>joins := joins w @ [Pending]\<rparr>)"
    by (simp add: hasTimer_def)
  ultimately have "hasTimer t tm (fst (joinRoomBody e room (length (joins w)) (w\<lparr>joins := joins w @ [Pending]\<rparr>)))"
    unfolding inv_def by blast
  then show ?thesis
    by (auto simp: joinRoom_def Let_def hasTimer_settle split: prod.splits outcome.splits)
qed

lemmas hasTimer_handle = benign_handle[OF benign_hasTimer]
lemmas hasTimer_respond = benign_respond[OF benign_hasTimer]
lemmas hasTimer_handlers =
  benign_lobbyOnOpen[OF benign_hasTimer] benign_lobbyOnMessage[OF benign_hasTimer]
  benign_gameOnMessage[OF benign_hasTimer] benign_afterAuthCode[OF benign_hasTimer]
  benign_gameOnOpen[OF benign_hasTimer hasTimer_sockClose]
  benign_fire[OF benign_hasTimer hasTimer_doSettle]

text \<open>No event changes a repeating timer.\<close>

lemma hasTimer_step:
  assumes wf: "wf w" and t: "hasTimer t tm w" "repeating tm"
  shows "hasTimer t tm (step k e ev w)"
proof (cases ev)
  case (Opened j)
  have "hasTimer t tm (setReadyState j OPEN w)"
    using t by (simp add: hasTimer_def setReadyState_def)
  then show ?thesis
    using t unfolding Opened step_def
    by (simp add: hasTimer_handle hasTimer_handlers split: role.splits)
next
  case (Message j p)
  have "fst tp \<noteq> t" if "j < length (sockets w)" "tp \<in> set (waiters (sockets w ! j))" for tp
    using wf_waiters[OF wf _ that(2)] that(1) t by (auto simp: hasTimer_def)
  then have "hasTimer t tm (fold runWaiter (waiters (sockets w ! j)) w')"
    if "hasTimer t tm w'" "j < length (sockets w)" for w'
    using that by (intro hasTimer_fold_runWaiter) auto
  with t show ?thesis
    unfolding Message step_def
    by (simp add: hasTimer_handle hasTimer_handlers split: role.splits)
next
  case (Closed j)
  then show ?thesis
    using t by (simp add: step_def hasTimer_def setReadyState_def)
next
  case (AuthCode n x)
  have "hasTimer t tm (w\<lparr>fetches := fs\<rparr>)" for fs
    using t by (simp add: hasTimer_def)
  then show ?thesis
    using t unfolding AuthCode step_def Let_def
    by (simp add: hasTimer_handle hasTimer_handlers inv_throw split: sum.splits)
next
  case (Fire t')
  have "hasTimer t tm (clearTimer t' w)" if "\<not> repeating (timers w ! t')"
    using that t by (intro hasTimer_clearTimer) (auto simp: hasTimer_def)
  then show ?thesis
    using t unfolding Fire step_def
    by (simp add: hasTimer_handle hasTimer_handlers)
next
  case (ApiJoinRoom room)
  then show ?thesis
    using t unfolding ApiJoinRoom step_def apiJoinRoom_def
    by (simp add: hasTimer_respond hasTimer_joinRoom)
next
  case ApiSpawn
  have "hasTimer t tm (fst (ifDo (\<lambda>w. isInRoom (bot w)) (spawnPlayer k e) w))"
    using benign_spawn[OF benign_hasTimer, of t tm "\<lambda>w. isInRoom (bot w)" k e] t
    unfolding inv_def by blast
  then show ?thesis
    unfolding ApiSpawn step_def apiSpawn_def
    by (auto simp: hasTimer_respond split: prod.splits outcome.splits)
next
  case ApiLeaveRoom
  have "hasTimer t tm (fst (block [ifDo (\<lambda>w. gameSocket (bot w) \<noteq> None) (leaveRoom k), updBot resetBot] w))"
    using benign_leave[OF benign_hasTimer, of t tm "\<lambda>w. gameSocket (bot w) \<noteq> None" k] t
    unfolding inv_def by blast
  with t show ?thesis
    unfolding ApiLeaveRoom step_def apiLeaveRoom_def
    by (auto simp: hasTimer_respond split: prod.splits outcome.splits)
qed

lemma pingLoop_started:
  assumes wf: "wf w" and g: "gameSocket (bot w) = Some j" "readyState (sockets w ! j) = CONNECTING"
    and l: "lobbySocket (bot w) \<noteq> None"
  shows "timers (step k e (Opened j) w) =
           timers w @ [\<lparr>delay = 2000, repeating = True, action = PingTick j, active = True\<rparr>,
                       \<lparr>delay = 5000, repeating = True, action = StatusTick j, active = True\<rparr>]"
proof -
  from l obtain i where i: "lobbySocket (bot w) = Some i" by auto
  from wf_lobby[OF wf i] wf_game[OF wf g(1)]
  have "i < length (sockets w)" "j < length (sockets w)" "role (sockets w ! j) = GameRole" "i \<noteq> j"
    by auto
  with g i show ?thesis
    by (simp add: step_def gameOnOpen_def act_defs send_defs nth_list_update)
qed

lemma tick_sends:
  assumes "t < length (timers w)" "active (timers w ! t)" "g < length (sockets w)"
  shows "action (timers w ! t) = PingTick g \<Longrightarrow>
           sent (sockets (step k e (Fire t) w) ! g) =
             (if readyState (sockets w ! g) = OPEN then sent (sockets w ! g) @ [Buffer (pingLoopPacket k)]
              else sent (sockets w ! g))"
    and "action (timers w ! t) = StatusTick g \<Longrightarrow>
           sent (sockets (step k e (Fire t) w) ! g) =
             (if readyState (sockets w ! g) = OPEN then sent (sockets w ! g) @ [Buffer craftedPacket]
              else sent (sockets w ! g))"
  using assms
  by (auto simp: step_def fire_def act_defs split: readyState.splits)


text \<open>
  C7, amended. In every state that a session reaches from its creation: when the game
  socket of the bot opens (and there is a lobby socket to close), two repeating timers
  are started on it, one of 2000 ms that sends the ping request and one of 5000 ms that
  sends the fixed status event; no event changes a repeating timer, so both stay
  active when the channel closes and when the session leaves; and a firing calls
  \<^verbatim>\<open>send\<close> on that socket, which takes the packet while the socket is open and
  discards it otherwise.
\<close>

theorem keep_alive_timers_are_never_cleared:
  assumes "lobbySocket b = None" "gameSocket b = None" "w = run k evs (newWorld b)"
  shows "(gameSocket (bot w) = Some j \<and> readyState (sockets w ! j) = CONNECTING
            \<and> lobbySocket (bot w) \<noteq> None \<longrightarrow>
          timers (step k e (Opened j) w) =
            timers w @ [\<lparr>delay = 2000, repeating = True, action = PingTick j, active = True\<rparr>,
                        \<lparr>delay = 5000, repeating = True, action = StatusTick j, active = True\<rparr>])
       \<and> (t < length (timers w) \<and> repeating (timers w ! t) \<longrightarrow>
            t < length (timers (step k e ev w)) \<and> timers (step k e ev w) ! t = timers w ! t)
       \<and> (t < length (timers w) \<and> active (timers w ! t) \<and> g < length (sockets w)
            \<and> action (timers w ! t) = PingTick g \<longrightarrow>
            sent (sockets (step k e (Fire t) w) ! g) =
              (if readyState (sockets w ! g) = OPEN
               then sent (sockets w ! g) @ [Buffer (pingLoopPacket k)] else sent (sockets w ! g)))
       \<and> (t < length (timers w) \<and> active (timers w ! t) \<and> g < length (sockets w)
            \<and> action (timers w ! t) = StatusTick g \<longrightarrow>
            sent (sockets (step k e (Fire t) w) ! g) =
              (if readyState (sockets w ! g) = OPEN
               then sent (sockets w ! g) @ [Buffer craftedPacket] else sent (sockets w ! g)))"
proof -
  from assms have wf: "wf w"
    by (simp add: wf_run wf_newWorld)
  have "t < length (timers (step k e ev w)) \<and> timers (step k e ev w) ! t = timers w ! t"
    if "t < length (timers w)" "repeating (timers w ! t)"
    using hasTimer_step[OF wf, of t "timers w ! t" k e ev] that by (simp add: hasTimer_def)
  then show ?thesis
    using pingLoop_started[OF wf, of j k e] tick_sends[of t w g k e]
    by blast
qed

text \<open>C7, amended, at the concrete session: the timers start at the handoff; after the
  join, the leave request does not change them, and the ping timer fires into the open
  socket.\<close>

theorem keep_alive_timers_are_never_cleared_witness:
  "lobbySocket freshBot = None \<and> gameSocket freshBot = None
   \<and> gameSocket (bot handoffWorld) = Some 1 \<and> readyState (sockets handoffWorld ! 1) = CONNECTING
   \<and> lobbySocket (bot handoffWorld) = Some 0
   \<and> timers (step photonCodes env0 (Opened 1) handoffWorld) =
        timers handoffWorld @ [\<lparr>delay = 2000, repeating = True, action = PingTick 1, active = True\<rparr>,
                               \<lparr>delay = 5000, repeating = True, action = StatusTick 1, active = True\<rparr>]
   \<and> timers inRoomWorld ! 2 = \<lparr>delay = 2000, repeating = True, action = PingTick 1, active = True\<rparr>
   \<and> timers (step photonCodes env0 ApiLeaveRoom inRoomWorld) ! 2 = timers inRoomWorld ! 2
   \<and> sent (sockets (step photonCodes env0 (Fire 2) inRoomWorld) ! 1) =
        sent (sockets inRoomWorld ! 1) @ [Buffer (pingLoopPacket photonCodes)]"
proof -
  have b: "lobbySocket freshBot = None" "gameSocket freshBot = None"
    by (simp_all add: freshBot_def newBot_def)
  have h: "handoffWorld = run photonCodes handoffEvents (newWorld freshBot)"
    by (simp add: handoffWorld_def)
  have r: "inRoomWorld = run photonCodes joinEvents (newWorld freshBot)"
    by (simp add: inRoomWorld_def freshWorld_def)
  have hw: "gameSocket (bot handoffWorld) = Some 1" "readyState (sockets handoffWorld ! 1) = CONNECTING"
    "lobbySocket (bot handoffWorld) = Some 0"
    by (simp_all add: handoffWorld_def handoffEvents_def eval_defs)
  have rw: "2 < length (timers inRoomWorld)" "repeating (timers inRoomWorld ! 2)"
    "active (timers inRoomWorld ! 2)" "1 < length (sockets inRoomWorld)"
    "action (timers inRoomWorld ! 2) = PingTick 1" "readyState (sockets inRoomWorld ! 1) = OPEN"
    "timers inRoomWorld ! 2 = \<lparr>delay = 2000, repeating = True, action = PingTick 1, active = True\<rparr>"
    by (simp_all add: inRoomWorld_eq)
  from keep_alive_timers_are_never_cleared[OF b h, where j=1 and e=env0] hw
  have 1: "timers (step photonCodes env0 (Opened 1) handoffWorld) =
        timers handoffWorld @ [\<lparr>delay = 2000, repeating = True, action = PingTick 1, active = True\<rparr>,
                               \<lparr>delay = 5000, repeating = True, action = StatusTick 1, active = True\<rparr>]"
    by simp
  from keep_alive_timers_are_never_cleared[OF b r, where t=2 and e=env0 and ev=ApiLeaveRoom and g=1] rw
  have 2: "timers (step photonCodes env0 ApiLeaveRoom inRoomWorld) ! 2 = timers inRoomWorld ! 2"
    and 3: "sent (sockets (step photonCodes env0 (Fire 2) inRoomWorld) ! 1) =
        sent (sockets inRoomWorld ! 1) @ [Buffer (pingLoopPacket photonCodes)]"
    by simp_all
  from b hw rw(7) 1 2 3 show ?thesis by simp
qed

text \<open>
  C7, as stated, does not hold: after the leave request and the closing of the game
  channel of the joined session, both keep-alive timers are still active.
\<close>

theorem keep_alive_timers_outlive_the_channel:
  "readyState (sockets leftWorld ! 1) = CLOSED \<and> \<not> isInRoom (bot leftWorld)
   \<and> \<not> alreadyJoined (bot leftWorld)
   \<and> timers leftWorld ! 2 = \<lparr>delay = 2000, repeating = True, action = PingTick 1, active = True\<rparr>
   \<and> timers leftWorld ! 3 = \<lparr>delay = 5000, repeating = True, action = StatusTick 1, active = True\<rparr>"
  by (simp add: leftWorld_def inRoomWorld_eq step_def run_def apiLeaveRoom_def act_defs send_defs
      resetBot_def)

subsection \<open>The timeout of a join\<close>

lemma waiters_update_readyState:
  "s \<in> set (xs[i := (xs ! i)\<lparr>readyState := y\<rparr>]) \<Longrightarrow> \<exists>s' \<in> set xs. waiters s = waiters s'"
proof -
  assume a: "s \<in> set (xs[i := (xs ! i)\<lparr>readyState := y\<rparr>])"
  show ?thesis
  proof (cases "i < length xs")
    case True
    from a set_update_subset_insert[of xs i] have "s \<in> set xs \<or> s = (xs ! i)\<lparr>readyState := y\<rparr>" by auto
    with True show ?thesis by (auto intro: bexI[of _ "xs ! i"])
  next
    case False
    then have "xs[i := (xs ! i)\<lparr>readyState := y\<rparr>] = xs" by (intro list_update_beyond) simp
    with a show ?thesis by auto
  qed
qed

lemma pendingJoin_setReadyState: "pendingJoin p t w \<Longrightarrow> pendingJoin p t (setReadyState i r w)"
  using waiters_update_readyState[of _ "sockets w" i r]
  unfolding pendingJoin_def setReadyState_def by (simp del: set_update_distinct) metis

lemma pendingJoin_sockClose: "inv (pendingJoin p t) (sockClose i)"
  using pendingJoin_setReadyState[of p t _ i CLOSING]
  unfolding inv_def sockClose_def setReadyState_def by auto

lemma pendingJoin_clearTimer: "pendingJoin p t w \<Longrightarrow> t' \<noteq> t \<Longrightarrow> pendingJoin p t (clearTimer t' w)"
  unfolding pendingJoin_def clearTimer_def by (auto simp: nth_list_update)

lemma pendingJoin_settle: "pendingJoin p t w \<Longrightarrow> p' \<noteq> p \<Longrightarrow> pendingJoin p t (settle p' r w)"
  unfolding pendingJoin_def settle_def by auto

lemma pendingJoin_fold_runWaiter:
  "pendingJoin p t w \<Longrightarrow> \<forall>tp \<in> set tps. fst tp \<noteq> t \<and> snd tp \<noteq> p
   \<Longrightarrow> pendingJoin p t (fold runWaiter tps w)"
  by (induction tps arbitrary: w)
    (simp_all add: runWaiter_def pendingJoin_settle pendingJoin_clearTimer)

lemma pendingJoin_doSettle: "p' \<noteq> p \<Longrightarrow> inv (pendingJoin p t) (doSettle p' r)"
  by (simp add: inv_def doSettle_def pendingJoin_settle)

lemma waiters_update_waiters:
  assumes "s \<in> set (xs[i := (xs ! i)\<lparr>waiters := waiters (xs ! i) @ [x]\<rparr>])" "tp \<in> set (waiters s)"
  shows "tp = x \<or> (\<exists>s' \<in> set xs. tp \<in> set (waiters s'))"
proof (cases "i < length xs")
  case True
  from assms(1) set_update_subset_insert[of xs i]
  have "s \<in> set xs \<or> s = (xs ! i)\<lparr>waiters := waiters (xs ! i) @ [x]\<rparr>" by auto
  with True assms(2) show ?thesis by (auto intro: bexI[of _ "xs ! i"])
next
  case False
  then have "xs[i := (xs ! i)\<lparr>waiters := waiters (xs ! i) @ [x]\<rparr>] = xs" by (intro list_update_beyond) simp
  with assms show ?thesis by auto
qed

lemma pendingJoin_awaitJoin: "p' \<noteq> p \<Longrightarrow> inv (pendingJoin p t) (awaitJoin p')"
proof -
  assume ne: "p' \<noteq> p"
  have timer: "pendingJoin p t (fst (setTimer 30000 False (JoinTimeout p') w))" if "pendingJoin p t w" for w
    using that ne unfolding pendingJoin_def setTimer_def by (auto simp: nth_append less_Suc_eq)
  have waiter: "pendingJoin p t (w\<lparr>sockets := (sockets w)[g := (sockets w ! g)
        \<lparr>waiters := waiters (sockets w ! g) @ [(t', p')]\<rparr>]\<rparr>)"
    if "pendingJoin p t w" "t' \<noteq> t" for w g t'
    using that ne waiters_update_waiters[of _ "sockets w" g "(t', p')"]
    unfolding pendingJoin_def by (simp del: set_update_distinct) (metis fst_conv snd_conv)
  have "pendingJoin p t (fst (awaitJoin p' w))" if w: "pendingJoin p t w" for w
  proof -
    from w have "length (timers w) \<noteq> t" unfolding pendingJoin_def by auto
    with timer[OF w] waiter[of "fst (setTimer 30000 False (JoinTimeout p') w)" "length (timers w)"]
    show ?thesis
      by (auto simp: awaitJoin_def Let_def split: option.splits)
  qed
  then show ?thesis unfolding inv_def by blast
qed

lemma pendingJoin_joinRoom: "pendingJoin p t w \<Longrightarrow> pendingJoin p t (joinRoom e room w)"
proof -
  assume a: "pendingJoin p t w"
  then have ne: "length (joins w) \<noteq> p" unfolding pendingJoin_def by auto
  have "inv (pendingJoin p t) (joinRoomBody e room (length (joins w)))"
    unfolding joinRoomBody_def
    by (intro inv_struct benign_leaves benign_generateAccount benign_pendingJoin
        pendingJoin_awaitJoin ne)
  moreover from a have "pendingJoin p t (w\<lparr>joins := joins w @ [Pending]\<rparr>)"
    by (auto simp: pendingJoin_def nth_append)
  ultimately have "pendingJoin p t (fst (joinRoomBody e room (length (joins w)) (w\<lparr>joins := joins w @ [Pending]\<rparr>)))"
    unfolding inv_def by blast
  then show ?thesis
    using ne by (auto simp: joinRoom_def Let_def pendingJoin_settle split: prod.splits outcome.splits)
qed

lemmas pendingJoin_handle = benign_handle[OF benign_pendingJoin]
lemmas pendingJoin_respond = benign_respond[OF benign_pendingJoin]
lemmas pendingJoin_handlers =
  benign_lobbyOnOpen[OF benign_pendingJoin] benign_lobbyOnMessage[OF benign_pendingJoin]
  benign_gameOnMessage[OF benign_pendingJoin] benign_afterAuthCode[OF benign_pendingJoin]
  benign_gameOnOpen[OF benign_pendingJoin pendingJoin_sockClose]

text \<open>Only its timeout settles the promise of a join that no wrapper resolves.\<close>

lemma pendingJoin_step:
  assumes pj: "pendingJoin p t w" and ev: "ev \<noteq> Fire t"
  shows "pendingJoin p t (step k e ev w)"
proof (cases ev)
  case (Opened j)
  then show ?thesis
    using pj unfolding Opened step_def
    by (simp add: pendingJoin_handle pendingJoin_handlers pendingJoin_setReadyState split: role.splits)
next
  case (Message j q)
  have "fst tp \<noteq> t \<and> snd tp \<noteq> p" if "j < length (sockets w)" "tp \<in> set (waiters (sockets w ! j))" for tp
    using pj that unfolding pendingJoin_def by (metis nth_mem)
  then have "pendingJoin p t (fold runWaiter (waiters (sockets w ! j)) w')"
    if "pendingJoin p t w'" "j < length (sockets w)" for w'
    using that by (intro pendingJoin_fold_runWaiter) auto
  with pj show ?thesis
    unfolding Message step_def
    by (simp add: pendingJoin_handle pendingJoin_handlers split: role.splits)
next
  case (Closed j)
  then show ?thesis
    using pj by (simp add: step_def pendingJoin_setReadyState)
next
  case (AuthCode n x)
  have "pendingJoin p t (w\<lparr>fetches := fs\<rparr>)" for fs
    using pj by (simp add: pendingJoin_def)
  then show ?thesis
    using pj unfolding AuthCode step_def Let_def
    by (simp add: pendingJoin_handle pendingJoin_handlers inv_throw split: sum.splits)
next
  case (Fire t')
  with ev have ne: "t' \<noteq> t" by simp
  have a: "inv (pendingJoin p t) (fire k (action (timers w ! t')))" if "t' < length (timers w)"
  proof (rule benign_fire[OF benign_pendingJoin])
    fix q assume "action (timers w ! t') = JoinTimeout q"
    with pj that ne have "q \<noteq> p" unfolding pendingJoin_def by auto
    then show "inv (pendingJoin p t) (doSettle q (Rejected (Error ''Connection timeout'')))"
      by (rule pendingJoin_doSettle)
  qed
  show ?thesis
    using pj ne a unfolding Fire step_def
    by (simp add: pendingJoin_handle pendingJoin_clearTimer)
next
  case (ApiJoinRoom room)
  then show ?thesis
    using pj unfolding ApiJoinRoom step_def apiJoinRoom_def
    by (simp add: pendingJoin_respond pendingJoin_joinRoom)
next
  case ApiSpawn
  have "pendingJoin p t (fst (ifDo (\<lambda>w. isInRoom (bot w)) (spawnPlayer k e) w))"
    using benign_spawn[OF benign_pendingJoin, of p t "\<lambda>w. isInRoom (bot w)" k e] pj
    unfolding inv_def by blast
  then show ?thesis
    unfolding ApiSpawn step_def apiSpawn_def
    by (auto simp: pendingJoin_respond split: prod.splits outcome.splits)
next
  case ApiLeaveRoom
  have "pendingJoin p t (fst (block [ifDo (\<lambda>w. gameSocket (bot w) \<noteq> None) (leaveRoom k), updBot resetBot] w))"
    using benign_leave[OF benign_pendingJoin, of p t "\<lambda>w. gameSocket (bot w) \<noteq> None" k] pj
    unfolding inv_def by blast
  with pj show ?thesis
    unfolding ApiLeaveRoom step_def apiLeaveRoom_def
    by (auto simp: pendingJoin_respond split: prod.splits outcome.splits)
qed

lemma pendingJoin_run:
  "pendingJoin p t w \<Longrightarrow> \<forall>x \<in> set evs. snd x \<noteq> Fire t \<Longrightarrow> pendingJoin p t (run k evs w)"
  unfolding run_def
  by (induction evs arbitrary: w) (auto simp: pendingJoin_step)


lemma pendingJoin_established:
  assumes "wf w" "gameSocket (bot w) = None" "account (bot w) \<noteq> None \<or> randomAccount e \<noteq> None"
  shows "pendingJoin (length (joins w)) (length (timers w)) (joinRoom e room w)"
proof -
  have ws: "fst tp \<noteq> length (timers w) \<and> snd tp \<noteq> length (joins w)"
    if "s \<in> set (sockets w)" "tp \<in> set (waiters s)" for s tp
    using wf_waiters[OF assms(1) that] by auto
  have ts: "action (timers w ! t') \<noteq> JoinTimeout (length (joins w))" if "t' < length (timers w)" for t'
    using wf_timeouts[OF assms(1) that] by auto
  show ?thesis
    using assms(2,3) ws ts
    unfolding pendingJoin_def
    by (auto simp: joinRoom_def joinRoomBody_def awaitJoin_def openLobbySocket_def generateAccount_def
        act_defs Let_def nth_append split: option.splits)
qed

lemma timeout_fires:
  assumes "pendingJoin p t w"
  shows "step k e (Fire t) w = settle p (Rejected (Error ''Connection timeout'')) (clearTimer t w)"
  using assms unfolding pendingJoin_def
  by (simp add: step_def fire_def handle_def doSettle_def)

subsection \<open>A session that gets no server address\<close>

lemma noGame_lobbyOnMessage:
  assumes "\<not> addressTrigger k p"
  shows "inv (\<lambda>w. gameSocket (bot w) = None) (lobbyOnMessage k e p)"
proof -
  let ?I = "\<lambda>w. gameSocket (bot w) = None"
  have a1: "inv ?I (ifDo (\<lambda>w. numEq (code p) (ptInitResponse k)) (sendAuthParams k e))"
    unfolding send_defs by (intro inv_struct inv_bot_leaves)
  have a2: "inv ?I
     (ifDo (\<lambda>w. numEq (code p) (opAuthenticate k))
         (block
           [ifDo (\<lambda>w. truthy (param p ''222''))
              (block
                [ifDo (\<lambda>w. isInRoom (bot w)) ret,
                 ifDo (\<lambda>w. gameRoomName (bot w) \<noteq> [])
                   (block
                     [updBot (\<lambda>b. b\<lparr>isInRoom := True\<rparr>),
                      setTimer 1000 False JoinFromLobby])]),
            ifDo (\<lambda>w. looseEqEmpty (authToken (bot w)))
              (updBot (\<lambda>b. b\<lparr>authToken := param p ''221''\<rparr>)),
            sendJoinLobby k]))"
    unfolding send_defs
    by (intro inv_bot_guarded inv_struct inv_bot_leaves inv_bot_updBot; simp?)
  have a3: "inv ?I
     (ifDo (\<lambda>w. numEq (code p) (evAppStats k))
         (block
           [ifDo (\<lambda>w. looseEqText (debugMessage p) ''Game does not exists'') ret,
            ifDo (\<lambda>w. looseEqEmpty (serverAddress (bot w)) \<and> truthy (param p ''230''))
              (block
                [updBot (\<lambda>b. b\<lparr>serverAddress := param p ''230''\<rparr>),
                 connectToGameServer])]))"
    using assms
    by (intro inv_ifDo_guarded) (simp add: addressTrigger_def ifDo_def ret_def)
  from a1 a2 a3 show ?thesis
    unfolding lobbyOnMessage_def
    by (intro inv_block_Cons inv_block_Nil)
qed

lemma noGame_lobbyOnOpen: "inv (\<lambda>w. gameSocket (bot w) = None) (lobbyOnOpen e)"
  unfolding lobbyOnOpen_def send_defs
  by (intro inv_struct inv_bot_leaves)

lemma noGame_gameOnOpen: "inv (\<lambda>w. gameSocket (bot w) = None) (gameOnOpen e)"
  unfolding gameOnOpen_def send_defs
  by (intro inv_struct inv_bot_leaves inv_bot_updBot;
      (auto intro!: inv_struct inv_bot_leaves split: option.splits)?)

lemma noGame_addPlayers: "inv (\<lambda>w. gameSocket (bot w) = None) (addPlayers kvs)"
  unfolding inv_def
proof (induction kvs)
  case Nil
  then show ?case by simp
next
  case (Cons kv kvs)
  obtain key v where kv: "kv = (key, v)" by (cases kv)
  show ?case
  proof (intro allI impI)
    fix w :: world assume a: "gameSocket (bot w) = None"
    show "gameSocket (bot (fst (addPlayers (kv # kvs) w))) = None"
    proof (cases "startsWith key ''int32''")
      case False
      with Cons a kv show ?thesis by simp
    next
      case True
      show ?thesis
      proof (cases "playerOf key v")
        case (Inl err)
        with True a kv show ?thesis by simp
      next
        case (Inr p)
        from a have "gameSocket (bot (w\<lparr>bot := (bot w)\<lparr>players := players (bot w) @ [p]\<rparr>\<rparr>)) = None"
          by simp
        with Cons have "gameSocket (bot (fst (addPlayers kvs (w\<lparr>bot := (bot w)\<lparr>players := players (bot w) @ [p]\<rparr>\<rparr>)))) = None"
          by blast
        with True Inr kv show ?thesis by simp
      qed
    qed
  qed
qed

lemma noGame_gameOnMessage: "inv (\<lambda>w. gameSocket (bot w) = None) (gameOnMessage k e p)"
  unfolding gameOnMessage_def send_defs
  by (intro inv_struct inv_bot_leaves inv_bot_updBot noGame_addPlayers; simp?)

lemma noGame_afterAuthCode: "inv (\<lambda>w. gameSocket (bot w) = None) (afterAuthCode k e p c)"
  unfolding afterAuthCode_def send_defs
  by (intro inv_struct inv_bot_leaves inv_bot_updBot; simp?)

lemma noGame_fire: "inv (\<lambda>w. gameSocket (bot w) = None) (fire k a)"
  unfolding fire_def send_defs
  by (cases a) (auto intro!: inv_struct inv_bot_leaves)

lemma noGame_joinRoom: "gameSocket (bot w) = None \<Longrightarrow> gameSocket (bot (joinRoom e room w)) = None"
  by (auto simp: joinRoom_def joinRoomBody_def awaitJoin_def openLobbySocket_def generateAccount_def
      act_defs Let_def split: option.splits prod.splits outcome.splits)

lemma noGame_step:
  assumes "noAddress k ev" "gameSocket (bot w) = None"
  shows "gameSocket (bot (step k e ev w)) = None"
proof (cases ev)
  case (Opened i)
  have "gameSocket (bot (setReadyState i OPEN w)) = None"
    using assms by (simp add: setReadyState_def)
  then show ?thesis
    using assms Opened
    by (auto simp: step_def split: role.splits
        intro!: bot_handle[where P="\<lambda>b. gameSocket b = None"] noGame_lobbyOnOpen noGame_gameOnOpen)
next
  case (Message i p)
  then show ?thesis
    using assms
    by (auto simp: step_def bot_fold_runWaiter split: role.splits
        intro!: bot_handle[where P="\<lambda>b. gameSocket b = None"] noGame_lobbyOnMessage noGame_gameOnMessage)
next
  case (Closed i)
  then show ?thesis using assms by (simp add: step_def setReadyState_def)
next
  case (AuthCode n r)
  show ?thesis
    using assms unfolding AuthCode step_def Let_def
    by (auto split: sum.splits
        intro!: bot_handle[where P="\<lambda>b. gameSocket b = None"] noGame_afterAuthCode inv_throw)
next
  case (Fire t)
  then show ?thesis
    using assms
    by (auto simp: step_def bot_clearTimer
        intro!: bot_handle[where P="\<lambda>b. gameSocket b = None"] noGame_fire)
next
  case (ApiJoinRoom room)
  then show ?thesis
    using assms by (simp add: step_def apiJoinRoom_def respond_def noGame_joinRoom)
next
  case ApiSpawn
  have "inv (\<lambda>w. gameSocket (bot w) = None) (ifDo (\<lambda>w. isInRoom (bot w)) (spawnPlayer k e))"
    unfolding send_defs by (intro inv_struct inv_bot_leaves)
  with assms have "gameSocket (bot (fst (ifDo (\<lambda>w. isInRoom (bot w)) (spawnPlayer k e) w))) = None"
    unfolding inv_def by blast
  then show ?thesis
    unfolding ApiSpawn step_def apiSpawn_def
    by (auto simp: respond_def split: prod.splits outcome.splits)
next
  case ApiLeaveRoom
  have "inv (\<lambda>w. gameSocket (bot w) = None)
      (block [ifDo (\<lambda>w. gameSocket (bot w) \<noteq> None) (leaveRoom k), updBot resetBot])"
    unfolding send_defs by (intro inv_struct inv_bot_leaves inv_bot_updBot) (simp add: resetBot_def)
  with assms have "gameSocket (bot (fst (block [ifDo (\<lambda>w. gameSocket (bot w) \<noteq> None) (leaveRoom k), updBot resetBot] w))) = None"
    unfolding inv_def by blast
  with assms show ?thesis
    unfolding ApiLeaveRoom step_def apiLeaveRoom_def
    by (auto simp: respond_def split: prod.splits outcome.splits)
qed

lemma noGame_run:
  "gameSocket (bot w) = None \<Longrightarrow> \<forall>x \<in> set evs. noAddress k (snd x)
   \<Longrightarrow> gameSocket (bot (run k evs w)) = None"
  unfolding run_def
  by (induction evs arbitrary: w) (auto simp: noGame_step)

text \<open>
  C4, amended. Take a session that has received no server address since it was created
  and that has an account or gets one from \<^verbatim>\<open>generateAccount\<close>. A call of \<^verbatim>\<open>joinRoom\<close>
  records the target room and starts a timeout of 30000 ms. As long as no server
  address arrives, whatever else happens, the promise of the call stays pending and the
  session has no game channel; when the timeout runs it rejects the promise with
  \<^verbatim>\<open>Error("Connection timeout")\<close>. The timeout changes neither a socket nor a field of
  the bot: it closes no channel.
\<close>

theorem join_without_server_address_times_out:
  assumes "lobbySocket b = None" "gameSocket b = None"
    and "w = run k evs0 (newWorld b)"
    and "\<forall>x \<in> set evs0. noAddress k (snd x)"
    and "account (bot w) \<noteq> None \<or> randomAccount e \<noteq> None"
    and "\<forall>x \<in> set evs. noAddress k (snd x) \<and> snd x \<noteq> Fire (length (timers w))"
  shows "gameRoomName (bot (joinRoom e room w)) = room
         \<and> timers (joinRoom e room w) ! length (timers w)
           = \<lparr>delay = 30000, repeating = False, action = JoinTimeout (length (joins w)), active = True\<rparr>
         \<and> joins (run k evs (joinRoom e room w)) ! length (joins w) = Pending
         \<and> gameSocket (bot (run k evs (joinRoom e room w))) = None
         \<and> joins (step k e' (Fire (length (timers w))) (run k evs (joinRoom e room w))) ! length (joins w)
             = Rejected (Error ''Connection timeout'')
         \<and> sockets (step k e' (Fire (length (timers w))) (run k evs (joinRoom e room w)))
             = sockets (run k evs (joinRoom e room w))
         \<and> bot (step k e' (Fire (length (timers w))) (run k evs (joinRoom e room w)))
             = bot (run k evs (joinRoom e room w))"
proof -
  let ?p = "length (joins w)" and ?t = "length (timers w)"
  have wf: "wf w"
    unfolding assms(3) using assms(1,2) by (intro wf_run wf_newWorld)
  have g: "gameSocket (bot w) = None"
    unfolding assms(3) using assms(2,4) by (intro noGame_run) (simp add: newWorld_def)
  have a: "pendingJoin ?p ?t (joinRoom e room w)"
    using wf g assms(5) by (rule pendingJoin_established)
  then have b: "pendingJoin ?p ?t (run k evs (joinRoom e room w))"
    using assms(6) by (intro pendingJoin_run) simp_all
  have 0: "gameRoomName (bot (joinRoom e room w)) = room"
    using g assms(5)
    by (auto simp: joinRoom_def joinRoomBody_def awaitJoin_def openLobbySocket_def generateAccount_def
        act_defs Let_def split: option.splits)
  from a have 1: "timers (joinRoom e room w) ! ?t
      = \<lparr>delay = 30000, repeating = False, action = JoinTimeout ?p, active = True\<rparr>"
    unfolding pendingJoin_def by simp
  from b have 2: "joins (run k evs (joinRoom e room w)) ! ?p = Pending"
    unfolding pendingJoin_def by simp
  have 3: "gameSocket (bot (run k evs (joinRoom e room w))) = None"
    using g assms(6) by (intro noGame_run noGame_joinRoom) simp_all
  from b have 4: "joins (step k e' (Fire ?t) (run k evs (joinRoom e room w))) ! ?p
      = Rejected (Error ''Connection timeout'')"
    unfolding timeout_fires[OF b] unfolding pendingJoin_def
    by (simp add: settle_def clearTimer_def)
  have 5: "sockets (step k e' (Fire ?t) (run k evs (joinRoom e room w)))
      = sockets (run k evs (joinRoom e room w))"
    unfolding timeout_fires[OF b] by (simp add: sockets_settle sockets_clearTimer)
  have 6: "bot (step k e' (Fire ?t) (run k evs (joinRoom e room w)))
      = bot (run k evs (joinRoom e room w))"
    unfolding timeout_fires[OF b] by (simp add: settle_def clearTimer_def)
  from 0 1 2 3 4 5 6 show ?thesis by blast
qed

text \<open>C4, amended, at the session that only reaches the lobby: it is new when
  \<^verbatim>\<open>joinRoom\<close> is called, and the events after the call are the opening of the lobby
  socket, the two responses of the lobby and the timer that asks for the room.\<close>

theorem join_without_server_address_times_out_witness:
  "lobbySocket freshBot = None \<and> gameSocket freshBot = None
   \<and> account (bot freshWorld) = Some botAccount
   \<and> noAddress photonCodes (Opened 0) \<and> noAddress photonCodes (Message 0 initResponse)
   \<and> noAddress photonCodes (Message 0 lobbyAuthResponse) \<and> noAddress photonCodes (Fire 1)
   \<and> gameRoomName (bot (joinRoom env0 ''Arena (#12345)'' freshWorld)) = ''Arena (#12345)''
   \<and> joins (run photonCodes
        (map (Pair env0) [Opened 0, Message 0 initResponse, Message 0 lobbyAuthResponse, Fire 1])
        (joinRoom env0 ''Arena (#12345)'' freshWorld)) ! 0 = Pending
   \<and> gameSocket (bot (run photonCodes
        (map (Pair env0) [Opened 0, Message 0 initResponse, Message 0 lobbyAuthResponse, Fire 1])
        (joinRoom env0 ''Arena (#12345)'' freshWorld))) = None
   \<and> joins (step photonCodes env0 (Fire 0) (run photonCodes
        (map (Pair env0) [Opened 0, Message 0 initResponse, Message 0 lobbyAuthResponse, Fire 1])
        (joinRoom env0 ''Arena (#12345)'' freshWorld))) ! 0 = Rejected (Error ''Connection timeout'')
   \<and> sockets (step photonCodes env0 (Fire 0) (run photonCodes
        (map (Pair env0) [Opened 0, Message 0 initResponse, Message 0 lobbyAuthResponse, Fire 1])
        (joinRoom env0 ''Arena (#12345)'' freshWorld)))
      = sockets (run photonCodes
        (map (Pair env0) [Opened 0, Message 0 initResponse, Message 0 lobbyAuthResponse, Fire 1])
        (joinRoom env0 ''Arena (#12345)'' freshWorld))"
proof -
  have b: "lobbySocket freshBot = None" "gameSocket freshBot = None"
    by (simp_all add: freshBot_def newBot_def)
  have w: "freshWorld = run photonCodes [] (newWorld freshBot)"
    by (simp add: freshWorld_def run_def)
  have h: "\<forall>x \<in> set ([] :: (env \<times> event) list). noAddress photonCodes (snd x)"
    by simp
  have a: "account (bot freshWorld) = Some botAccount"
    and n: "length (timers freshWorld) = 0" "length (joins freshWorld) = 0"
    by (simp_all add: freshWorld_def freshBot_def newWorld_def newBot_def)
  have a': "account (bot freshWorld) \<noteq> None \<or> randomAccount env0 \<noteq> None"
    using a by simp
  have na: "noAddress photonCodes (Opened 0)" "noAddress photonCodes (Message 0 initResponse)"
    "noAddress photonCodes (Message 0 lobbyAuthResponse)" "noAddress photonCodes (Fire 1)"
    by (simp_all add: addressTrigger_def initResponse_def lobbyAuthResponse_def photonCodes_def
        numEq_def param_def)
  have evs: "\<forall>x \<in> set (map (Pair env0) [Opened 0, Message 0 initResponse, Message 0 lobbyAuthResponse, Fire 1]).
      noAddress photonCodes (snd x) \<and> snd x \<noteq> Fire (length (timers freshWorld))"
    unfolding n using na by simp
  from join_without_server_address_times_out[OF b w h a' evs, where room="''Arena (#12345)''"
      and e'=env0] b a na
  show ?thesis unfolding n by simp
qed

text \<open>
  C4, as stated, does not hold: the session \<open>timedOutWorld\<close> has a target room and has
  received no server address; its join is rejected by the timeout, and its lobby channel
  is still open afterward.
\<close>

theorem join_timeout_leaves_lobby_channel_open:
  "gameRoomName (bot timedOutWorld) = ''Arena (#12345)''
   \<and> serverAddress (bot timedOutWorld) = JStr []
   \<and> joins timedOutWorld = [Rejected (Error ''Connection timeout'')]
   \<and> map readyState (sockets timedOutWorld) = [OPEN]
   \<and> lobbySocket (bot timedOutWorld) = Some 0"
  by (simp add: timedOutWorld_def eval_defs)

section \<open>The value codec: round trip and bounds\<close>

subsection \<open>Fields of fixed width\<close>

lemma length_be: "length (be k n) = k"
  by (induction k arbitrary: n) simp_all

lemma unbe_snoc: "unbe (bs @ [b]) = unbe bs * 256 + unat b"
  by (simp add: unbe_def)

lemma unbe_be: "unbe (be k n) = n mod 256 ^ k"
proof (induction k arbitrary: n)
  case 0
  show ?case by (simp add: unbe_def)
next
  case (Suc k)
  have "n mod (256 * 256 ^ k) = 256 * (n div 256 mod 256 ^ k) + n mod 256"
    by (rule mod_mult2_eq)
  then show ?case
    by (simp add: unbe_snoc Suc unat_of_nat)
qed

lemma field_be: "fieldOf k (be k n @ rest) = Inr (n mod 256 ^ k, rest)"
  by (simp add: fieldOf_def length_be unbe_be)


lemma field_word:
  fixes w :: "'a::len word"
  assumes "LENGTH('a) = 8 * k"
  shows "decoded (\<lambda>n. f (of_nat n :: 'a word)) (fieldOf k) (be k (unat w) @ rest) = Inr (f w, rest)"
proof -
  have "(256::nat) ^ k = 2 ^ LENGTH('a)"
    unfolding assms power_mult by simp
  then have "unat w mod 256 ^ k = unat w"
    by (simp add: unsigned_less)
  then show ?thesis
    by (simp add: decoded_def field_be)
qed

lemma field_count: "n < 65536 \<Longrightarrow> fieldOf 2 (be 2 n @ rest) = Inr (n, rest)"
  by (simp add: field_be)

lemma field_size: "n < 4294967296 \<Longrightarrow> fieldOf 4 (be 4 n @ rest) = Inr (n, rest)"
  by (simp add: field_be)

subsection \<open>Text\<close>

lemma unat_byte: "n < 256 \<Longrightarrow> unat (of_nat n :: 8 word) = n"
  by (simp add: unat_of_nat)

lemma div_bound: "c < k * d \<Longrightarrow> a + k \<le> b \<Longrightarrow> a + c div d < (b::nat)"
  by (metis add_less_cancel_left less_le_trans less_mult_imp_div_less mult.commute)

lemma mod_bound: "0 < d \<Longrightarrow> a + d \<le> b \<Longrightarrow> a + c mod d < (b::nat)"
  by (meson add_less_cancel_left less_le_trans mod_less_divisor)

lemma unat_lead: "c < k * d \<Longrightarrow> a + k \<le> 256 \<Longrightarrow> unat (of_nat (a + c div d) :: 8 word) = a + c div d"
  by (rule unat_byte) (rule div_bound)

lemma unat_cont: "unat (0x80 + of_nat (c mod 64) :: 8 word) = 0x80 + c mod 64"
proof -
  have "unat (of_nat (0x80 + c mod 64) :: 8 word) = 0x80 + c mod 64"
    by (rule unat_byte) (rule mod_bound, simp_all)
  then show ?thesis by simp
qed

lemma join3: "(c div 4096 * 64 + c div 64 mod 64) * 64 + c mod 64 = (c::nat)"
proof -
  have "c div 4096 = c div 64 div 64"
    using div_mult2_eq[of c 64 64] by simp
  then show ?thesis by simp
qed

lemma join4:
  "((c div 262144 * 64 + c div 4096 mod 64) * 64 + c div 64 mod 64) * 64 + c mod 64 = (c::nat)"
proof -
  have "c div 4096 = c div 64 div 64" "c div 262144 = c div 64 div 64 div 64"
    using div_mult2_eq[of c 64 64] div_mult2_eq[of c 4096 64] by simp_all
  then show ?thesis by simp
qed

lemma character_utf8:
  assumes "scalarValue c"
  shows "character (utf8 c @ rest) = Inr (c, rest)"
proof -
  consider "c < 0x80" | "0x80 \<le> c" "c < 0x800" | "0x800 \<le> c" "c < 0x10000"
    | "0x10000 \<le> c" "c < 0x110000"
    using assms unfolding scalarValue_def by linarith
  then show ?thesis
  proof cases
    case 1
    then show ?thesis by (simp add: character_def utf8_def unat_byte)
  next
    case 2
    have b: "unat (0xC0 + of_nat (c div 64) :: 8 word) = 0xC0 + c div 64"
      using unat_lead[of c 32 64 "0xC0"] 2 by simp
    from 2 have "c div 64 < 32"
      by (intro less_mult_imp_div_less) simp
    with 2 show ?thesis
      by (simp add: character_def utf8_def b unat_cont checked_def)
  next
    case 3
    have b: "unat (0xE0 + of_nat (c div 4096) :: 8 word) = 0xE0 + c div 4096"
      using unat_lead[of c 16 4096 "0xE0"] 3 by simp
    from 3 have "c div 4096 < 16"
      by (intro less_mult_imp_div_less) simp
    with 3 assms join3[of c] show ?thesis
      by (simp add: character_def utf8_def b unat_cont checked_def numeral_2_eq_2)
  next
    case 4
    have b: "unat (0xF0 + of_nat (c div 262144) :: 8 word) = 0xF0 + c div 262144"
      using unat_lead[of c 8 262144 "0xF0"] 4 by simp
    from 4 have "c div 262144 < 8"
      by (intro less_mult_imp_div_less) simp
    with 4 assms join4[of c] show ?thesis
      by (simp add: character_def utf8_def b unat_cont checked_def numeral_3_eq_3)
  qed
qed

lemma utf8_nonempty: "utf8 c \<noteq> []"
  by (simp add: utf8_def)

subsection \<open>Sequences of elements\<close>

lemma decoded_Inr: "d bs = Inr (x, rest) \<Longrightarrow> decoded f d bs = Inr (f x, rest)"
  and decoded_isl: "isl (d bs) \<Longrightarrow> isl (decoded f d bs)"
  by (auto simp: decoded_def isl_def)


text \<open>When each element is decoded from its own bytes, the sequence is decoded from the
  bytes of its elements; when the decoder fails on an element, it fails on the
  sequence.\<close>

lemma repeated_elements:
  assumes "\<And>x rest. x \<in> set xs \<Longrightarrow> ok x \<Longrightarrow> d (enc x @ rest) = Inr (x, rest)"
    and "\<And>x rest. x \<in> set xs \<Longrightarrow> \<not> ok x \<Longrightarrow> isl (d (enc x @ rest))"
  shows "((\<forall>x \<in> set xs. ok x) \<longrightarrow> repeated (length xs) d (concat (map enc xs) @ rest) = Inr (xs, rest))
       \<and> (\<not> (\<forall>x \<in> set xs. ok x) \<longrightarrow> isl (repeated (length xs) d (concat (map enc xs) @ rest)))"
  using assms
proof (induction xs arbitrary: rest)
  case Nil
  show ?case by simp
next
  case (Cons x xs)
  let ?rest = "concat (map enc xs) @ rest"
  show ?case
  proof (cases "ok x")
    case False
    with Cons.prems(2)[of x ?rest] show ?thesis
      by (auto simp: isl_def)
  next
    case True
    with Cons.prems(1)[of x ?rest] have x: "d (enc x @ ?rest) = Inr (x, ?rest)"
      by simp
    have "((\<forall>x \<in> set xs. ok x) \<longrightarrow> repeated (length xs) d ?rest = Inr (xs, rest))
       \<and> (\<not> (\<forall>x \<in> set xs. ok x) \<longrightarrow> isl (repeated (length xs) d ?rest))"
      using Cons.prems by (intro Cons.IH) simp_all
    with True x show ?thesis
      by (auto simp: decoded_Inr decoded_isl)
  qed
qed

lemma repeated_all:
  assumes "\<And>x rest. x \<in> set xs \<Longrightarrow> d (enc x @ rest) = Inr (x, rest)"
  shows "repeated (length xs) d (concat (map enc xs) @ rest) = Inr (xs, rest)"
  using repeated_elements[of xs "\<lambda>x. True" d enc rest] assms by simp

lemma length_concat_nonempty:
  "(\<And>x. x \<in> set xs \<Longrightarrow> f x \<noteq> []) \<Longrightarrow> length xs \<le> length (concat (map f xs))"
proof (induction xs)
  case Nil
  show ?case by simp
next
  case (Cons x xs)
  then have "f x \<noteq> []" "length xs \<le> length (concat (map f xs))"
    by simp_all
  then show ?case
    by (cases "f x") simp_all
qed


subsection \<open>Tags\<close>

lemma byteTag_tagByte: "byteTag (tagByte t) = Some t"
  by (cases t) (simp_all add: byteTag_def)

lemma tagged_encode: "tagged d ((tagByte t # bs) @ rest) = d t (bs @ rest)"
  by (simp add: tagged_def byteTag_tagByte)

subsection \<open>Values that hold no other value\<close>

lemma unbe_single: "unbe [b] = unat b"
  by (simp add: unbe_def)

lemma flat_payload:
  assumes "encodable v" "\<not> isContainer (tagOf v)"
  shows "flat (tagOf v) (payload v @ rest) = Inr (v, rest)"
proof (cases v)
  case VNull
  then show ?thesis by (simp add: flat_def)
next
  case (VBoolean b)
  then show ?thesis
    by (simp add: flat_def decoded_def fieldOf_def unbe_single)
next
  case (VByte b)
  then show ?thesis
    by (simp add: flat_def decoded_def fieldOf_def unbe_single)
next
  case (VShort w)
  then show ?thesis
    using field_word[of 2 VShort w rest] by (simp add: flat_def)
next
  case (VInteger w)
  then show ?thesis
    using field_word[of 4 VInteger w rest] by (simp add: flat_def)
next
  case (VLong w)
  then show ?thesis
    using field_word[of 8 VLong w rest] by (simp add: flat_def)
next
  case (VFloat w)
  then show ?thesis
    using field_word[of 4 VFloat w rest] by (simp add: flat_def)
next
  case (VDouble w)
  then show ?thesis
    using field_word[of 8 VDouble w rest] by (simp add: flat_def)
next
  case (VString cs)
  with assms have n: "length cs < 65536" and cs: "\<And>c. c \<in> set cs \<Longrightarrow> scalarValue c"
    by simp_all
  have "length cs \<le> length (concat (map utf8 cs))"
    by (rule length_concat_nonempty) (rule utf8_nonempty)
  moreover have "repeated (length cs) character (concat (map utf8 cs) @ rest) = Inr (cs, rest)"
    by (rule repeated_all) (rule character_utf8, rule cs)
  ultimately show ?thesis
    using VString n by (simp add: flat_def field_count decoded_def)
next
  case (VByteArray bs)
  with assms have "length bs < 4294967296" by simp
  with VByteArray show ?thesis
    by (simp add: flat_def field_size)
next
  case (VVector x y z)
  have w: "fieldOf 4 (be 4 (unat a) @ tail) = Inr (unat a, tail)" for a :: "32 word" and tail
  proof -
    have "unat a < 2 ^ 32" using unsigned_less[of a] by simp
    then show ?thesis by (simp add: field_be)
  qed
  have "repeated 3 (fieldOf 4) (be 4 (unat x) @ be 4 (unat y) @ be 4 (unat z) @ rest)
      = Inr ([unat x, unat y, unat z], rest)"
    unfolding numeral_3_eq_3 by (simp add: w decoded_def del: be.simps)
  with VVector show ?thesis
    by (simp add: flat_def del: be.simps)
qed (use assms in \<open>simp_all add: isContainer_def\<close>)


subsection \<open>Containers\<close>

lemma foldr_max_le: "foldr max ns 0 \<le> r \<longleftrightarrow> (\<forall>n \<in> set ns. n \<le> (r::nat))"
  by (induction ns) auto

lemma payload_nonempty: "elementTag (tagOf v) \<Longrightarrow> payload v \<noteq> []"
proof -
  assume "elementTag (tagOf v)"
  then have "0 < length (payload v)"
    by (cases v) (simp_all add: elementTag_def length_be del: be.simps)
  then show ?thesis by auto
qed

lemma count_header:
  assumes "n < 65536"
  shows "count (be 2 n @ rest) =
           (if maxCount < n then Inl CountExceeded
            else if length rest < n then Inl Truncated else Inr (n, rest))"
  using assms by (simp add: count_def field_count)


lemma container_flat: "\<not> isContainer t \<Longrightarrow> container d t bs = flat t bs"
  by (cases t) (simp_all add: container_def isContainer_def)

lemma decodePayload_flat: "\<not> isContainer t \<Longrightarrow> decodePayload r t bs = flat t bs"
  by (cases r) (simp_all add: container_flat)

text \<open>A pair of a key and a value, each with its tag.\<close>

lemma paired_elements:
  assumes "okk \<Longrightarrow> d (enck @ encv @ rest) = Inr (k, encv @ rest)"
    and "\<not> okk \<Longrightarrow> isl (d (enck @ encv @ rest))"
    and "okv \<Longrightarrow> d (encv @ rest) = Inr (v, rest)"
    and "\<not> okv \<Longrightarrow> isl (d (encv @ rest))"
  shows "(okk \<and> okv \<longrightarrow> paired d ((enck @ encv) @ rest) = Inr ((k, v), rest))
       \<and> (\<not> (okk \<and> okv) \<longrightarrow> isl (paired d ((enck @ encv) @ rest)))"
proof (cases okk)
  case False
  with assms(2) show ?thesis
    by (auto simp: paired_def isl_def)
next
  case True
  with assms(1) have "d (enck @ encv @ rest) = Inr (k, encv @ rest)" by simp
  with True assms(3,4) show ?thesis
    by (cases okv) (auto simp: paired_def decoded_Inr decoded_isl)
qed

text \<open>
  The encoding of a value the encoder can produce is decoded to that value, and to the
  bytes that follow it, when the value is within the depth that is left and within the
  maximal count; otherwise decoding it is an error.
\<close>

lemma flat_within: "\<not> isContainer (tagOf v) \<Longrightarrow> fits r v"
  by (cases v) (simp_all add: fits_def isContainer_def)

lemma decodePayload_flat_payload:
  assumes "encodable v" "\<not> isContainer (tagOf v)"
  shows "(fits r v \<longrightarrow> decodePayload r (tagOf v) (payload v @ rest) = Inr (v, rest))
     \<and> (\<not> fits r v \<longrightarrow> isl (decodePayload r (tagOf v) (payload v @ rest)))"
  using flat_within[OF assms(2), of r] decodePayload_flat[OF assms(2), of r "payload v @ rest"]
    flat_payload[OF assms, of rest]
  by simp

lemma decodePayload_payload:
  "encodable v \<Longrightarrow>
     (fits r v \<longrightarrow> decodePayload r (tagOf v) (payload v @ rest) = Inr (v, rest))
     \<and> (\<not> fits r v \<longrightarrow> isl (decodePayload r (tagOf v) (payload v @ rest)))"
proof (induction v arbitrary: r rest rule: payload.induct)
  case (11 t vs)
  from "11.prems" have t: "elementTag t" and n: "length vs < 65536"
    and vs: "\<And>v. v \<in> set vs \<Longrightarrow> tagOf v = t \<and> encodable v"
    by simp_all
  show ?case
  proof (cases r)
    case 0
    then show ?thesis by (simp add: fits_def isContainer_def)
  next
    case (Suc r')
    have len: "length vs \<le> length (concat (map payload vs) @ rest)"
      using length_concat_nonempty[of vs payload] payload_nonempty vs t by fastforce
    have el: "((\<forall>v \<in> set vs. fits r' v)
           \<longrightarrow> repeated (length vs) (decodePayload r' t) (concat (map payload vs) @ rest) = Inr (vs, rest))
         \<and> (\<not> (\<forall>v \<in> set vs. fits r' v)
           \<longrightarrow> isl (repeated (length vs) (decodePayload r' t) (concat (map payload vs) @ rest)))"
      using "11.IH" vs by (intro repeated_elements) fastforce+
    have w: "fits r (VArray t vs) \<longleftrightarrow> length vs \<le> maxCount \<and> (\<forall>v \<in> set vs. fits r' v)"
      unfolding fits_def Suc by (auto simp: foldr_max_le)
    show ?thesis
      unfolding w using el len t n
      by (auto simp: Suc container_def byteTag_tagByte count_header decoded_Inr decoded_isl)
  qed
next
  case (12 vs)
  from "12.prems" have n: "length vs < 65536" and vs: "\<And>v. v \<in> set vs \<Longrightarrow> encodable v"
    by simp_all
  let ?enc = "\<lambda>v. tagByte (tagOf v) # payload v"
  show ?case
  proof (cases r)
    case 0
    then show ?thesis by (simp add: fits_def isContainer_def)
  next
    case (Suc r')
    have len: "length vs \<le> length (concat (map ?enc vs) @ rest)"
      using length_concat_nonempty[of vs ?enc] by simp
    have el: "((\<forall>v \<in> set vs. fits r' v)
           \<longrightarrow> repeated (length vs) (tagged (decodePayload r')) (concat (map ?enc vs) @ rest) = Inr (vs, rest))
         \<and> (\<not> (\<forall>v \<in> set vs. fits r' v)
           \<longrightarrow> isl (repeated (length vs) (tagged (decodePayload r')) (concat (map ?enc vs) @ rest)))"
      using "12.IH" vs by (intro repeated_elements) (simp_all only: tagged_encode, fastforce+)
    have w: "fits r (VObjectArray vs) \<longleftrightarrow> length vs \<le> maxCount \<and> (\<forall>v \<in> set vs. fits r' v)"
      unfolding fits_def Suc by (auto simp: foldr_max_le)
    show ?thesis
      unfolding w using el len n
      by (auto simp: Suc container_def count_header decoded_Inr decoded_isl)
  qed
next
  case (13 kvs)
  from "13.prems" have n: "length kvs < 65536"
    and kvs: "\<And>k v. (k, v) \<in> set kvs \<Longrightarrow> encodable k \<and> encodable v"
    by auto
  let ?enc = "\<lambda>(k, v). (tagByte (tagOf k) # payload k) @ (tagByte (tagOf v) # payload v)"
  let ?ok = "\<lambda>r (k, v). fits r k \<and> fits r v"
  show ?case
  proof (cases r)
    case 0
    then show ?thesis by (simp add: fits_def isContainer_def)
  next
    case (Suc r')
    have len: "length kvs \<le> length (concat (map ?enc kvs) @ rest)"
      using length_concat_nonempty[of kvs ?enc] by (simp add: case_prod_beta)
    have pair: "(?ok r' kv \<longrightarrow> paired (tagged (decodePayload r')) (?enc kv @ tail) = Inr (kv, tail))
        \<and> (\<not> ?ok r' kv \<longrightarrow> isl (paired (tagged (decodePayload r')) (?enc kv @ tail)))"
      if kv: "kv \<in> set kvs" for kv tail
    proof -
      obtain k v where e: "kv = (k, v)" by (cases kv)
      from kv e kvs have ek: "encodable k" and ev: "encodable v" by auto
      have k: "fits r' k \<Longrightarrow> decodePayload r' (tagOf k) (payload k @ tail') = Inr (k, tail')"
        "\<not> fits r' k \<Longrightarrow> isl (decodePayload r' (tagOf k) (payload k @ tail'))" for tail'
        using "13.IH"(1)[OF kv e[symmetric] ek, of r' tail'] by simp_all
      have v: "fits r' v \<Longrightarrow> decodePayload r' (tagOf v) (payload v @ tail') = Inr (v, tail')"
        "\<not> fits r' v \<Longrightarrow> isl (decodePayload r' (tagOf v) (payload v @ tail'))" for tail'
        using "13.IH"(2)[OF kv e[symmetric] ev, of r' tail'] by simp_all
      show ?thesis
        unfolding e prod.case
        by (rule paired_elements) (simp_all only: tagged_encode k(1) v(1), (rule k(2) v(2), assumption)+)
    qed
    have el: "((\<forall>kv \<in> set kvs. ?ok r' kv)
           \<longrightarrow> repeated (length kvs) (paired (tagged (decodePayload r'))) (concat (map ?enc kvs) @ rest)
               = Inr (kvs, rest))
         \<and> (\<not> (\<forall>kv \<in> set kvs. ?ok r' kv)
           \<longrightarrow> isl (repeated (length kvs) (paired (tagged (decodePayload r'))) (concat (map ?enc kvs) @ rest)))"
      using pair by (intro repeated_elements) blast+
    have w: "fits r (VMap kvs) \<longleftrightarrow> length kvs \<le> maxCount \<and> (\<forall>kv \<in> set kvs. ?ok r' kv)"
      unfolding fits_def Suc by (auto simp: foldr_max_le)
    show ?thesis
      unfolding w using el len n
      by (auto simp: Suc container_def count_header decoded_Inr decoded_isl)
  qed
qed (rule decodePayload_flat_payload; simp add: isContainer_def)+

subsection \<open>What the decoder returns\<close>





lemma decode_encode:
  assumes "encodable v"
  shows "fits maxDepth v \<Longrightarrow> decode (encode v @ rest) = Inr (v, length (encode v))"
    and "\<not> fits maxDepth v \<Longrightarrow> isl (decode (encode v @ rest))"
  using decodePayload_payload[OF assms, of maxDepth rest]
  by (auto simp: decode_def encode_def tagged_def byteTag_tagByte isl_def)

subsection \<open>Nested tables and headers\<close>

lemma depth_nestedTable: "depth (nestedTable n i) = Suc n"
  by (induction n arbitrary: i) simp_all

lemma encodable_nestedTable: "encodable (nestedTable n i)"
  by (induction n arbitrary: i) simp_all

lemma counted_nestedTable: "counted (nestedTable n i)"
  by (induction n arbitrary: i) (simp_all add: maxCount_def)

lemma tagOf_nestedTable: "tagOf (nestedTable n i) = TMap"
  by (cases n) simp_all

lemma byteTag_containers: "byteTag 121 = Some TArray" "byteTag 122 = Some TObjectArray"
  "byteTag 104 = Some TMap" "byteTag 98 = Some TByte"
  by (simp_all add: byteTag_def)

lemma nestedTable_too_deep:
  "r \<le> n \<Longrightarrow> decodePayload r TMap (payload (nestedTable n i) @ rest) = Inl DepthExceeded"
proof (induction n arbitrary: r i rest)
  case 0
  then show ?case by (simp add: isContainer_def)
next
  case (Suc n)
  show ?case
  proof (cases r)
    case 0
    then show ?thesis by (simp add: isContainer_def)
  next
    case r: (Suc r')
    with Suc.prems have "r' \<le> n" by simp
    from Suc.IH[OF this]
    have deep: "decodePayload r' TMap (payload (nestedTable n (Suc i)) @ rest) = Inl DepthExceeded" .
    have key: "decodePayload r' TByte (of_nat i # tail) = Inr (VByte (of_nat i), tail)" for tail
      using decodePayload_flat_payload[of "VByte (of_nat i)" r' tail]
      by (simp add: isContainer_def fits_def)
    have one: "count (be 2 (Suc 0) @ b # tail) = Inr (Suc 0, b # tail)" for b tail
      by (simp add: count_header maxCount_def del: be.simps)
    show ?thesis
      unfolding r
      by (simp add: container_def paired_def decoded_def tagged_def byteTag_containers
          tagOf_nestedTable one key deep del: be.simps)
  qed
qed




subsection \<open>Round trip\<close>

text \<open>
  C1, as stated, does not hold of the codec of the specification. The tables that the
  stress routine of \<^verbatim>\<open>PhotonClient.js\<close> nests 50 deep are a value the encoder produces
  bytes for, and decoding these bytes is an error: the depth is above the maximum of
  the decoder.
\<close>

theorem nested_tables_do_not_round_trip:
  "encodable (nestedTable 50 0) \<and> depth (nestedTable 50 0) = 51
   \<and> decode (encode (nestedTable 50 0)) = Inl DepthExceeded"
proof -
  have "maxDepth \<le> 50" by (simp add: maxDepth_def)
  from nestedTable_too_deep[OF this, of 0 "[]"]
  have "decode (encode (nestedTable 50 0)) = Inl DepthExceeded"
    by (simp add: decode_def encode_def tagged_def tagOf_nestedTable byteTag_containers)
  then show ?thesis
    by (simp add: encodable_nestedTable depth_nestedTable)
qed

text \<open>
  C1, amended. For every value that the encoder can produce and that is within the
  limits of the decoder (its containers are nested no deeper than the maximal depth and
  none has more elements or pairs than the maximal count), decoding the bytes that
  encoding it produced, whatever bytes follow them, yields exactly that value and
  consumes exactly the bytes of its encoding. Floats and doubles are compared bit by
  bit: the value that comes back has the same 32 or 64 bits, NaN and the infinities
  included.
\<close>

theorem decode_encode_within_limits:
  "encodable v \<Longrightarrow> depth v \<le> maxDepth \<Longrightarrow> counted v
   \<Longrightarrow> decode (encode v @ rest) = Inr (v, length (encode v))"
  using decode_encode(1)[of v rest] by (simp add: fits_def)

text \<open>C1, amended, at a table that holds a NaN, the two infinities as float and as
  double, a string with characters of one to four bytes, and an array of integers.\<close>

theorem decode_encode_within_limits_witness:
  "encodable (VMap [(VByte 1, VFloat 0x7FC00000), (VByte 2, VFloat 0x7F800000),
                    (VByte 3, VDouble 0xFFF0000000000000),
                    (VString [0x41, 0xE9, 0x20AC, 0x1F600], VArray TInteger [VInteger 7, VInteger 0xFFFFFFFF])])
   \<and> depth (VMap [(VByte 1, VFloat 0x7FC00000), (VByte 2, VFloat 0x7F800000),
                    (VByte 3, VDouble 0xFFF0000000000000),
                    (VString [0x41, 0xE9, 0x20AC, 0x1F600], VArray TInteger [VInteger 7, VInteger 0xFFFFFFFF])])
        = 2
   \<and> decode (encode (VMap [(VByte 1, VFloat 0x7FC00000), (VByte 2, VFloat 0x7F800000),
                    (VByte 3, VDouble 0xFFF0000000000000),
                    (VString [0x41, 0xE9, 0x20AC, 0x1F600], VArray TInteger [VInteger 7, VInteger 0xFFFFFFFF])])
               @ [0, 255])
       = Inr (VMap [(VByte 1, VFloat 0x7FC00000), (VByte 2, VFloat 0x7F800000),
                    (VByte 3, VDouble 0xFFF0000000000000),
                    (VString [0x41, 0xE9, 0x20AC, 0x1F600], VArray TInteger [VInteger 7, VInteger 0xFFFFFFFF])],
              length (encode (VMap [(VByte 1, VFloat 0x7FC00000), (VByte 2, VFloat 0x7F800000),
                    (VByte 3, VDouble 0xFFF0000000000000),
                    (VString [0x41, 0xE9, 0x20AC, 0x1F600], VArray TInteger [VInteger 7, VInteger 0xFFFFFFFF])])))"
  (is "encodable ?v \<and> _ \<and> _")
proof -
  have e: "encodable ?v"
    by (simp add: scalarValue_def elementTag_def)
  have d: "depth ?v = 2" by simp
  then have d': "depth ?v \<le> maxDepth" by (simp add: maxDepth_def)
  have c: "counted ?v" by (simp add: maxCount_def)
  from decode_encode_within_limits[OF e d' c, of "[0, 255]"] e d show ?thesis
    by blast
qed

subsection \<open>Bounds of the decoder\<close>



end
